theory Spec2Isabelle
  imports Main
begin

section \<open>semver-intersect: a shallow embedding\<close>

text \<open>
  The module \<^verbatim>\<open>semver-intersect.js\<close> computes the intersection of semver ranges.
  JavaScript strings are modelled as \<^typ>\<open>string\<close> (code units below 256), arrays as
  lists, \<^verbatim>\<open>undefined\<close>/\<^verbatim>\<open>null\<close> as \<^term>\<open>None\<close>, and every
  \<^verbatim>\<open>throw\<close> as the \<^term>\<open>Inl\<close> branch of a sum.
\<close>

subsection \<open>Errors\<close>

datatype error =
    Error string           \<comment> \<open>\<^verbatim>\<open>new Error(message)\<close>\<close>
  | TypeError              \<comment> \<open>a property read on \<^verbatim>\<open>null\<close> inside the module\<close>
  | Thrown_undefined       \<comment> \<open>\<^verbatim>\<open>throw error\<close> while \<^verbatim>\<open>error\<close> was never assigned\<close>
  | Collaborator_error     \<comment> \<open>an exception raised inside a function of the semver package\<close>

definition lift :: "'a option \<Rightarrow> error + 'a" where
  "lift r = (case r of None \<Rightarrow> Inl Collaborator_error | Some x \<Rightarrow> Inr x)"

definition and_then :: "error + 'a \<Rightarrow> ('a \<Rightarrow> error + 'b) \<Rightarrow> error + 'b" where
  "and_then r f = (case r of Inl e \<Rightarrow> Inl e | Inr x \<Rightarrow> f x)"

subsection \<open>The semver package\<close>

text \<open>
  The module calls the npm package \<^verbatim>\<open>semver\<close>, which is not part of the repository.
  Its functions are a parameter of every definition below. A function of the package
  that can raise returns an option (\<^term>\<open>None\<close> when it raises); \<^verbatim>\<open>validRange\<close> and
  \<^verbatim>\<open>prerelease\<close> return \<^verbatim>\<open>null\<close> as \<^term>\<open>None\<close>; \<^verbatim>\<open>satisfies\<close> catches the
  exceptions of its parsers and returns a boolean.
\<close>

datatype ident = Str string | Num nat

record semver =
  semver_major :: "string \<Rightarrow> nat option"
  semver_minor :: "string \<Rightarrow> nat option"
  semver_prerelease :: "string \<Rightarrow> ident list option"
  semver_satisfies :: "string \<Rightarrow> string \<Rightarrow> bool"
  semver_intersects :: "string \<Rightarrow> string \<Rightarrow> bool option"
  semver_validRange :: "string \<Rightarrow> string option"
  semver_lt :: "string \<Rightarrow> string \<Rightarrow> bool option"
  semver_gt :: "string \<Rightarrow> string \<Rightarrow> bool option"
  semver_eq :: "string \<Rightarrow> string \<Rightarrow> bool option"

subsection \<open>The regular expressions\<close>

text \<open>
  \<^verbatim>\<open>\d\<close>, \<^verbatim>\<open>\w\<close>, \<^verbatim>\<open>[\w.]\<close>, \<^verbatim>\<open>[<=>]\<close> and \<^verbatim>\<open>\s\<close> (also the characters removed by
  \<^verbatim>\<open>trim\<close>).
\<close>

definition isDigit :: "char \<Rightarrow> bool" where
  "isDigit c = (c \<in> set ''0123456789'')"

definition isWord :: "char \<Rightarrow> bool" where
  "isWord c = (isDigit c \<or> c \<in> set ''abcdefghijklmnopqrstuvwxyz''
      \<or> c \<in> set ''ABCDEFGHIJKLMNOPQRSTUVWXYZ'' \<or> c = CHR ''_'')"

definition isWordOrDot :: "char \<Rightarrow> bool" where
  "isWordOrDot c = (isWord c \<or> c = CHR ''.'')"

definition isCond :: "char \<Rightarrow> bool" where
  "isCond c = (c \<in> set ''<=>'')"

definition isSpace :: "char \<Rightarrow> bool" where
  "isSpace c = (c \<in> {CHR 0x09, CHR 0x0A, CHR 0x0B, CHR 0x0C, CHR 0x0D, CHR '' '', CHR 0xA0})"

text \<open>\<^verbatim>\<open>\d+\<close> and \<^verbatim>\<open>\.\<close> at the head of a string: the rest of the string after the match.\<close>

definition digits :: "string \<Rightarrow> string option" where
  "digits s = (if takeWhile isDigit s = [] then None else Some (dropWhile isDigit s))"

fun dot :: "string \<Rightarrow> string option" where
  "dot (c # r) = (if c = CHR ''.'' then Some r else None)"
| "dot [] = None"

text \<open>\<^verbatim>\<open>[\d]+\.[\d]+\.[\d]+\<close> at the head of a string.\<close>

definition numbers :: "string \<Rightarrow> string option" where
  "numbers s = Option.bind (Option.bind (Option.bind (Option.bind (digits s) dot) digits) dot) digits"

text \<open>\<^verbatim>\<open>^[\d]+\.[\d]+\.[\d]+$\<close> and \<^verbatim>\<open>^[\d]+\.[\d]+\.[\d]+(?:-[\w.]+)?$\<close> on a whole string.\<close>

definition isPlainVersion :: "string \<Rightarrow> bool" where
  "isPlainVersion s = (numbers s = Some [])"

definition isVersion :: "string \<Rightarrow> bool" where
  "isVersion s = (case numbers s of
       None \<Rightarrow> False
     | Some [] \<Rightarrow> True
     | Some (c # t) \<Rightarrow> c = CHR ''-'' \<and> t \<noteq> [] \<and> list_all isWordOrDot t)"

text \<open>
  \<^verbatim>\<open>regex.minMax.exec(range)\<close> with
  \<^verbatim>\<open>/^>=([\d]+\.[\d]+\.[\d]+(?:-[\w.]+)?) <=?([\d]+\.[\d]+\.[\d]+)$/\<close>: the two groups.
  No character of the first group is a space, so the group ends at the first space.
\<close>

definition minMax :: "string \<Rightarrow> (string \<times> string) option" where
  "minMax rng =
     (if take 2 rng = ''>='' then
        (let rest = drop 2 rng;
             mn = takeWhile (\<lambda>c. c \<noteq> CHR '' '') rest;
             after = dropWhile (\<lambda>c. c \<noteq> CHR '' '') rest
         in if isVersion mn \<and> take 2 after = '' <'' then
              (let r = drop 2 after;
                   mx = (if take 1 r = ''='' then drop 1 r else r)
               in if isPlainVersion mx then Some (mn, mx) else None)
            else None)
      else None)"

text \<open>\<^verbatim>\<open>range.includes(p)\<close>.\<close>

fun str_includes :: "string \<Rightarrow> string \<Rightarrow> bool" where
  "str_includes [] p = (p = [])"
| "str_includes (c # s) p = (take (length p) (c # s) = p \<or> str_includes s p)"

subsection \<open>createShorthand\<close>

definition createShorthand :: "semver \<Rightarrow> string \<Rightarrow> error + string" where
  "createShorthand sv rng =
     (case minMax rng of
        None \<Rightarrow> Inr rng
      | Some (mn, mx) \<Rightarrow>
          if mn = mx then Inr mn
          else if str_includes rng ''<='' then Inr (mn @ '' - '' @ mx)
          else
            and_then (lift (semver_major sv mn)) (\<lambda>major_min.
              if major_min = 0 then
                and_then (lift (semver_major sv mx)) (\<lambda>major_max.
                  if major_max = 0 then
                    and_then (lift (semver_minor sv mn)) (\<lambda>minor_min.
                      if minor_min = 0 then
                        and_then (lift (semver_minor sv mx)) (\<lambda>minor_max.
                          if minor_max = 0 then Inr (''^'' @ mn) else Inr (''~'' @ mn))
                      else Inr (''^'' @ mn))
                  else Inr ''0'')
              else
                and_then (lift (semver_major sv mx)) (\<lambda>major_max.
                  if major_min \<noteq> major_max then Inr (''^'' @ mn) else Inr (''~'' @ mn))))"

subsection \<open>parseRange\<close>

text \<open>
  \<^verbatim>\<open>regex.condition\<close> is \<^verbatim>\<open>/^([<=>]+)?/\<close>: the group is the longest run of the three
  characters at the head, and is undefined when that run is empty.
\<close>

definition conditionMatch :: "string \<Rightarrow> string option" where
  "conditionMatch rng =
     (let run = takeWhile isCond rng in if run = [] then None else Some run)"

text \<open>
  \<^verbatim>\<open>regex.version\<close> is \<^verbatim>\<open>/([\d]+\.[\d]+\.[\d]+(?:-[\w.]+)?)$/\<close>: \<^verbatim>\<open>exec\<close> tries the start
  positions from the left, and a match has to reach the end of the string.
\<close>

fun versionMatch :: "string \<Rightarrow> string option" where
  "versionMatch [] = None"
| "versionMatch (c # s) = (if isVersion (c # s) then Some (c # s) else versionMatch s)"

record parsed =
  condition :: string
  prerelease :: "ident list option"
  version :: string

definition parseRange :: "semver \<Rightarrow> string \<Rightarrow> error + parsed" where
  "parseRange sv rng =
     (let cond = (case conditionMatch rng of None \<Rightarrow> ''='' | Some c \<Rightarrow> c) in
      case versionMatch rng of
        None \<Rightarrow> Inl TypeError
      | Some v \<Rightarrow> Inr \<lparr>condition = cond, prerelease = semver_prerelease sv v, version = v\<rparr>)"

subsection \<open>ensureCompatible\<close>

text \<open>\<^verbatim>\<open>!bound\<close> for a bound that is a string or undefined.\<close>

definition falsy :: "string option \<Rightarrow> bool" where
  "falsy bound = (bound = None \<or> bound = Some [])"

definition incompatible :: "string \<Rightarrow> string \<Rightarrow> error" where
  "incompatible rng b = Error (''Range '' @ rng @ '' is not compatible with '' @ b)"

text \<open>The callback of \<^verbatim>\<open>bounds.forEach\<close>, for the parsed clause \<open>p\<close> of \<open>rng\<close>.\<close>

definition checkBound :: "semver \<Rightarrow> string \<Rightarrow> parsed \<Rightarrow> string option \<Rightarrow> error + unit" where
  "checkBound sv rng p bound =
     (case bound of
        None \<Rightarrow> Inr ()
      | Some b \<Rightarrow>
          if b = [] then Inr ()
          else
            and_then (if semver_satisfies sv (version p) b
                      then lift (semver_intersects sv rng b) else Inr False)
              (\<lambda>ok.
                 if ok then Inr ()
                 else
                   (case prerelease p of
                      None \<Rightarrow> Inl (incompatible rng b)
                    | Some _ \<Rightarrow>
                        and_then (parseRange sv b)
                          (\<lambda>pb. case prerelease pb of
                                   Some _ \<Rightarrow>
                                     if semver_satisfies sv (version pb) rng then Inr ()
                                     else Inl (incompatible rng b)
                                 | None \<Rightarrow>
                                     if semver_satisfies sv (version p) (rng @ '' '' @ b)
                                     then Inr ()
                                     else Inl (incompatible rng b)))))"

fun forEach :: "('a \<Rightarrow> error + unit) \<Rightarrow> 'a list \<Rightarrow> error + unit" where
  "forEach f [] = Inr ()"
| "forEach f (x # xs) = and_then (f x) (\<lambda>_. forEach f xs)"

definition ensureCompatible :: "semver \<Rightarrow> string \<Rightarrow> string option list \<Rightarrow> error + unit" where
  "ensureCompatible sv rng bounds =
     and_then (parseRange sv rng) (\<lambda>p. forEach (checkBound sv rng p) bounds)"

subsection \<open>mergeBounds\<close>

definition startsWith :: "string \<Rightarrow> string \<Rightarrow> bool" where
  "startsWith s p = (take (length p) s = p)"

definition mergeBounds :: "semver \<Rightarrow> string \<Rightarrow> string option \<Rightarrow> error + string" where
  "mergeBounds sv rng bound =
     (case bound of
        None \<Rightarrow> Inr rng
      | Some b \<Rightarrow>
          if b = [] then Inr rng
          else
            and_then (parseRange sv rng) (\<lambda>p.
            and_then (parseRange sv b) (\<lambda>pb.
              let comparator = (if startsWith (condition p) ''<'' then semver_lt sv else semver_gt sv);
                  strict = (condition p = ''<'' \<or> condition p = ''>'')
              in and_then (lift (comparator (version p) (version pb))) (\<lambda>tighter.
                   if tighter then Inr rng
                   else if strict then
                     and_then (lift (semver_eq sv (version p) (version pb))) (\<lambda>same.
                       if same then Inr rng else Inr b)
                   else Inr b))))"

subsection \<open>updateBounds\<close>

record boundPair =
  lowerBound :: "string option"
  upperBound :: "string option"

definition updateBounds :: "semver \<Rightarrow> boundPair \<Rightarrow> string \<Rightarrow> error + boundPair" where
  "updateBounds sv bp rng =
     and_then (parseRange sv rng) (\<lambda>p.
     and_then (if prerelease p \<noteq> None
               then ensureCompatible sv rng [lowerBound bp, upperBound bp] else Inr ()) (\<lambda>_.
     and_then (if condition p = ''=''
               then and_then (ensureCompatible sv rng [lowerBound bp, upperBound bp]) (\<lambda>_.
                      Inr \<lparr>lowerBound = Some (''>='' @ rng), upperBound = Some (''<='' @ rng)\<rparr>)
               else Inr bp) (\<lambda>bp1.
     and_then (if startsWith (condition p) ''>''
               then and_then (ensureCompatible sv rng [upperBound bp1]) (\<lambda>_.
                    and_then (mergeBounds sv rng (lowerBound bp1)) (\<lambda>l.
                      Inr (bp1\<lparr>lowerBound := Some l\<rparr>)))
               else Inr bp1) (\<lambda>bp2.
     if startsWith (condition p) ''<''
     then and_then (ensureCompatible sv rng [lowerBound bp2]) (\<lambda>_.
          and_then (mergeBounds sv rng (upperBound bp2)) (\<lambda>u.
            Inr (bp2\<lparr>upperBound := Some u\<rparr>)))
     else Inr bp2))))"

subsection \<open>expandRanges\<close>

text \<open>
  \<^verbatim>\<open>s.split(/\|\|/)\<close> and \<^verbatim>\<open>s.split(/\s+/)\<close>. \<^verbatim>\<open>split\<close> scans from the left, cuts at each
  match of the separator and continues behind it; the piece in progress is \<open>cur\<close>,
  reversed. Neither separator matches the empty string, so the result of splitting the
  empty string is the array holding it.
\<close>

fun split_or :: "string \<Rightarrow> string \<Rightarrow> string list" where
  "split_or cur [] = [rev cur]"
| "split_or cur [c] = [rev (c # cur)]"
| "split_or cur (c # d # s) =
     (if c = CHR ''|'' \<and> d = CHR ''|'' then rev cur # split_or [] s
      else split_or (c # cur) (d # s))"

function split_ws :: "string \<Rightarrow> string \<Rightarrow> string list" where
  "split_ws cur [] = [rev cur]"
| "split_ws cur (c # s) =
     (if isSpace c then rev cur # split_ws [] (dropWhile isSpace s)
      else split_ws (c # cur) s)"
  by pat_completeness auto
termination
  by (relation "measure (\<lambda>(cur, s). length s)")
     (auto simp: less_Suc_eq_le length_dropWhile_le)

text \<open>\<^verbatim>\<open>regex.x\<close> is \<^verbatim>\<open>/^x|X|\*$/\<close>, an alternation of \<^verbatim>\<open>^x\<close>, \<^verbatim>\<open>X\<close> and \<^verbatim>\<open>\*$\<close>.\<close>

definition x_match :: "string \<Rightarrow> bool" where
  "x_match s = (take 1 s = ''x'' \<or> CHR ''X'' \<in> set s \<or> (s \<noteq> [] \<and> last s = CHR ''*''))"

definition coerceRange :: "string \<Rightarrow> string" where
  "coerceRange rng = (if x_match rng then ''>=0.0.0'' else rng)"

text \<open>\<^verbatim>\<open>[...new Set(a)]\<close>: the first occurrence of each element, in order.\<close>

fun distinct_from :: "'a list \<Rightarrow> 'a list \<Rightarrow> 'a list" where
  "distinct_from seen [] = []"
| "distinct_from seen (x # xs) =
     (if x \<in> set seen then distinct_from seen xs else x # distinct_from (x # seen) xs)"

definition distinct_arr :: "'a list \<Rightarrow> 'a list" where
  "distinct_arr a = distinct_from [] a"

fun mapResult :: "('a \<Rightarrow> error + 'b) \<Rightarrow> 'a list \<Rightarrow> error + 'b list" where
  "mapResult f [] = Inr []"
| "mapResult f (x # xs) = and_then (f x) (\<lambda>y. and_then (mapResult f xs) (\<lambda>ys. Inr (y # ys)))"

text \<open>The callback of the inner \<^verbatim>\<open>map\<close>, for one member of the union.\<close>

definition expandPart :: "string \<Rightarrow> string list" where
  "expandPart part = distinct_arr (map coerceRange (split_ws [] part))"

definition expandRange :: "semver \<Rightarrow> string \<Rightarrow> error + string list list" where
  "expandRange sv rng =
     (case semver_validRange sv rng of
        None \<Rightarrow> Inl TypeError
      | Some validRange \<Rightarrow> Inr (map expandPart (split_or [] validRange)))"

definition expandRanges :: "semver \<Rightarrow> string list \<Rightarrow> error + string list list list" where
  "expandRanges sv ranges = mapResult (expandRange sv) ranges"

subsection \<open>formatIntersection\<close>

definition trim :: "string \<Rightarrow> string" where
  "trim s = rev (dropWhile isSpace (rev (dropWhile isSpace s)))"

definition formatIntersection :: "boundPair \<Rightarrow> string" where
  "formatIntersection bp =
     (let lower = (case lowerBound bp of None \<Rightarrow> [] | Some s \<Rightarrow> s);
          upper = (case upperBound bp of None \<Rightarrow> [] | Some s \<Rightarrow> s)
      in if lower = upper then lower else trim (lower @ '' '' @ upper))"

subsection \<open>intersect\<close>

fun allPairs :: "'a list \<Rightarrow> 'b list \<Rightarrow> ('a \<times> 'b) list" where
  "allPairs [] arr2 = []"
| "allPairs (cur # arr1) arr2 = map (\<lambda>y. (cur, y)) arr2 @ allPairs arr1 arr2"

text \<open>\<^verbatim>\<open>ranges.reduce(updateBounds, bound)\<close>: the first exception ends the fold.\<close>

fun reduceUpdateBounds :: "semver \<Rightarrow> boundPair \<Rightarrow> string list \<Rightarrow> error + boundPair" where
  "reduceUpdateBounds sv bound [] = Inr bound"
| "reduceUpdateBounds sv bound (r # rs) =
     and_then (updateBounds sv bound r) (\<lambda>b. reduceUpdateBounds sv b rs)"

text \<open>
  The \<^verbatim>\<open>map\<close> over the pairs with its \<^verbatim>\<open>try\<close>/\<^verbatim>\<open>catch\<close>: the array of results
  (\<^term>\<open>None\<close> for \<^verbatim>\<open>null\<close>) and the variable \<^verbatim>\<open>error\<close>, which
  \<^verbatim>\<open>error ??= e\<close> assigns only while it is undefined.
\<close>

fun tryPairs :: "semver \<Rightarrow> error option \<Rightarrow> (boundPair \<times> string list) list
    \<Rightarrow> boundPair option list \<times> error option" where
  "tryPairs sv err [] = ([], err)"
| "tryPairs sv err ((bound, ranges) # ps) =
     (case reduceUpdateBounds sv bound ranges of
        Inr b \<Rightarrow> (let (rs, err') = tryPairs sv err ps in (Some b # rs, err'))
      | Inl e \<Rightarrow>
          (let (rs, err') = tryPairs sv (case err of None \<Rightarrow> Some e | Some e0 \<Rightarrow> Some e0) ps
           in (None # rs, err')))"

text \<open>The callback of \<^verbatim>\<open>rangeUnions.reduce\<close>; \<^verbatim>\<open>filter(Boolean)\<close> drops the nulls.\<close>

definition intersectStep :: "semver \<Rightarrow> boundPair list \<Rightarrow> string list list \<Rightarrow> error + boundPair list" where
  "intersectStep sv boundsUnion rangeUnion =
     (let (results, err) = tryPairs sv None (allPairs boundsUnion rangeUnion);
          intermediateBounds = List.map_filter id results
      in if intermediateBounds = []
         then Inl (case err of None \<Rightarrow> Thrown_undefined | Some e \<Rightarrow> e)
         else Inr intermediateBounds)"

fun reduceUnions :: "semver \<Rightarrow> boundPair list \<Rightarrow> string list list list \<Rightarrow> error + boundPair list" where
  "reduceUnions sv boundsUnion [] = Inr boundsUnion"
| "reduceUnions sv boundsUnion (rangeUnion # rest) =
     and_then (intersectStep sv boundsUnion rangeUnion) (\<lambda>bs. reduceUnions sv bs rest)"

definition emptyBounds :: boundPair where
  "emptyBounds = \<lparr>lowerBound = None, upperBound = None\<rparr>"

fun join :: "string \<Rightarrow> string list \<Rightarrow> string" where
  "join sep [] = []"
| "join sep [x] = x"
| "join sep (x # y # xs) = x @ sep @ join sep (y # xs)"

text \<open>\<^verbatim>\<open>resultUnion.map(...).join(' || ')\<close>.\<close>

definition formatUnion :: "semver \<Rightarrow> boundPair list \<Rightarrow> error + string" where
  "formatUnion sv resultUnion =
     and_then (mapResult (\<lambda>bound. createShorthand sv (formatIntersection bound)) resultUnion)
       (\<lambda>parts. Inr (join '' || '' parts))"

definition intersect :: "semver \<Rightarrow> string list \<Rightarrow> error + string" where
  "intersect sv ranges =
     and_then (expandRanges sv ranges) (\<lambda>rangeUnions.
     and_then (reduceUnions sv [emptyBounds] rangeUnions) (formatUnion sv))"

subsection \<open>A reference instance of the semver package\<close>

text \<open>
  The theorems below hold for every value of the parameter \<open>sv\<close>. To evaluate the module
  on concrete ranges, \<open>ref_semver\<close> implements the functions of the package on versions
  \<^verbatim>\<open>M.m.p\<close> and \<^verbatim>\<open>M.m.p-tags\<close> (no build metadata) and on ranges made of primitive
  comparators, caret and tilde ranges over full versions, \<^verbatim>\<open>M.x\<close>, \<^verbatim>\<open>M.m.x\<close> and
  \<^verbatim>\<open>*\<close>, joined by spaces and \<^verbatim>\<open>||\<close>. With it the model returns the value that the
  repository's unit tests expect on each range of that fragment.
\<close>

definition digitVal :: "char \<Rightarrow> nat" where
  "digitVal c = length (takeWhile (\<lambda>d. d \<noteq> c) ''0123456789'')"

definition numOf :: "string \<Rightarrow> nat" where
  "numOf s = foldl (\<lambda>n c. 10 * n + digitVal c) 0 s"

function showNat :: "nat \<Rightarrow> string" where
  "showNat n = (if n < 10 then [''0123456789'' ! n] else showNat (n div 10) @ [''0123456789'' ! (n mod 10)])"
  by pat_completeness auto
termination
  by (relation "measure id") auto

fun split_on :: "char \<Rightarrow> string \<Rightarrow> string \<Rightarrow> string list" where
  "split_on sep cur [] = [rev cur]"
| "split_on sep cur (c # s) = (if c = sep then rev cur # split_on sep [] s else split_on sep (c # cur) s)"

text \<open>A numeric identifier \<^verbatim>\<open>0|[1-9]\d*\<close>.\<close>

definition isNumeric :: "string \<Rightarrow> bool" where
  "isNumeric s = (s \<noteq> [] \<and> list_all isDigit s \<and> (length s = 1 \<or> hd s \<noteq> CHR ''0''))"

definition identOf :: "string \<Rightarrow> ident option" where
  "identOf s =
     (if s = [] \<or> \<not> list_all (\<lambda>c. (isWord c \<and> c \<noteq> CHR ''_'') \<or> c = CHR ''-'') s then None
      else if list_all isDigit s then (if isNumeric s then Some (Num (numOf s)) else None)
      else Some (Str s))"

fun allSome :: "'a option list \<Rightarrow> 'a list option" where
  "allSome [] = Some []"
| "allSome (x # xs) = (case x of None \<Rightarrow> None | Some y \<Rightarrow> map_option ((#) y) (allSome xs))"

record sver =
  major :: nat
  minor :: nat
  patch :: nat
  pre :: "ident list"

definition parseVersion :: "string \<Rightarrow> sver option" where
  "parseVersion s =
     (let main = takeWhile (\<lambda>c. c \<noteq> CHR ''-'') s;
          tail = dropWhile (\<lambda>c. c \<noteq> CHR ''-'') s;
          nums = split_on CHR ''.'' [] main
      in if length nums = 3 \<and> list_all isNumeric nums then
           (case (if tail = [] then Some [] else allSome (map identOf (split_on CHR ''.'' [] (tl tail)))) of
              None \<Rightarrow> None
            | Some ids \<Rightarrow> Some \<lparr>major = numOf (nums ! 0), minor = numOf (nums ! 1),
                                  patch = numOf (nums ! 2), pre = ids\<rparr>)
         else None)"

fun str_less :: "string \<Rightarrow> string \<Rightarrow> bool" where
  "str_less [] [] = False"
| "str_less [] (d # t) = True"
| "str_less (c # s) [] = False"
| "str_less (c # s) (d # t) =
     ((of_char c :: nat) < of_char d \<or> (c = d \<and> str_less s t))"

fun compareIdent :: "ident \<Rightarrow> ident \<Rightarrow> int" where
  "compareIdent (Num a) (Num b) = (if a < b then -1 else if a = b then 0 else 1)"
| "compareIdent (Num a) (Str b) = -1"
| "compareIdent (Str a) (Num b) = 1"
| "compareIdent (Str a) (Str b) = (if a = b then 0 else if str_less a b then -1 else 1)"

fun compareIdents :: "ident list \<Rightarrow> ident list \<Rightarrow> int" where
  "compareIdents [] [] = 0"
| "compareIdents [] (b # bs) = -1"
| "compareIdents (a # as) [] = 1"
| "compareIdents (a # as) (b # bs) =
     (if compareIdent a b = 0 then compareIdents as bs else compareIdent a b)"

definition comparePre :: "ident list \<Rightarrow> ident list \<Rightarrow> int" where
  "comparePre a b =
     (if a \<noteq> [] \<and> b = [] then -1
      else if a = [] \<and> b \<noteq> [] then 1
      else compareIdents a b)"

definition compareNat :: "nat \<Rightarrow> nat \<Rightarrow> int" where
  "compareNat a b = (if a < b then -1 else if a = b then 0 else 1)"

definition compareVersions :: "sver \<Rightarrow> sver \<Rightarrow> int" where
  "compareVersions a b =
     (if compareNat (major a) (major b) \<noteq> 0 then compareNat (major a) (major b)
      else if compareNat (minor a) (minor b) \<noteq> 0 then compareNat (minor a) (minor b)
      else if compareNat (patch a) (patch b) \<noteq> 0 then compareNat (patch a) (patch b)
      else comparePre (pre a) (pre b))"

definition showIdent :: "ident \<Rightarrow> string" where
  "showIdent i = (case i of Str s \<Rightarrow> s | Num n \<Rightarrow> showNat n)"

definition showVersion :: "sver \<Rightarrow> string" where
  "showVersion v =
     showNat (major v) @ ''.'' @ showNat (minor v) @ ''.'' @ showNat (patch v)
       @ (if pre v = [] then [] else ''-'' @ join ''.'' (map showIdent (pre v)))"

text \<open>Comparators: an operator among \<^verbatim>\<open><\<close>, \<^verbatim>\<open><=\<close>, \<^verbatim>\<open>>\<close>, \<^verbatim>\<open>>=\<close> and the empty one, and a version.\<close>

type_synonym comparator = "string \<times> sver"

definition parseComparator :: "string \<Rightarrow> comparator option" where
  "parseComparator tok =
     (let op = takeWhile (\<lambda>c. c \<in> set ''<=>'') tok;
          v = dropWhile (\<lambda>c. c \<in> set ''<=>'') tok
      in if op \<in> set [[], ''='', ''<'', ''<='', ''>'', ''>='']
         then map_option (\<lambda>p. (if op = ''='' then [] else op, p)) (parseVersion v)
         else None)"

definition caret :: "sver \<Rightarrow> string list" where
  "caret v =
     [''>='' @ showVersion v,
      ''<'' @ showVersion
        (if major v \<noteq> 0 then \<lparr>major = major v + 1, minor = 0, patch = 0, pre = []\<rparr>
         else if minor v \<noteq> 0 then \<lparr>major = 0, minor = minor v + 1, patch = 0, pre = []\<rparr>
         else \<lparr>major = 0, minor = 0, patch = patch v + 1, pre = []\<rparr>)]"

definition tilde :: "sver \<Rightarrow> string list" where
  "tilde v =
     [''>='' @ showVersion v,
      ''<'' @ showVersion \<lparr>major = major v, minor = minor v + 1, patch = 0, pre = []\<rparr>]"

definition isX :: "string \<Rightarrow> bool" where
  "isX s = (s \<in> set [''x'', ''X'', ''*''])"

text \<open>One token of a range, as the primitive comparators it stands for.\<close>

definition desugar :: "string \<Rightarrow> string list option" where
  "desugar tok =
     (if tok = [] \<or> isX tok then Some []
      else if hd tok = CHR ''^'' then map_option caret (parseVersion (tl tok))
      else if hd tok = CHR ''~'' then map_option tilde (parseVersion (tl tok))
      else
        (case split_on CHR ''.'' [] tok of
           [a, b] \<Rightarrow>
             if isNumeric a \<and> isX b
             then Some [''>='' @ a @ ''.0.0'', ''<'' @ showNat (numOf a + 1) @ ''.0.0'']
             else None
         | [a, b, c] \<Rightarrow>
             if isNumeric a \<and> isNumeric b \<and> isX c
             then Some [''>='' @ a @ ''.'' @ b @ ''.0'', ''<'' @ a @ ''.'' @ showNat (numOf b + 1) @ ''.0'']
             else map_option (\<lambda>(op, v). [op @ showVersion v]) (parseComparator tok)
         | _ \<Rightarrow> map_option (\<lambda>(op, v). [op @ showVersion v]) (parseComparator tok)))"

definition desugarSet :: "string \<Rightarrow> string list option" where
  "desugarSet part = map_option concat (allSome (map desugar (split_ws [] (trim part))))"

definition ref_validRange :: "string \<Rightarrow> string option" where
  "ref_validRange rng =
     (case allSome (map desugarSet (split_or [] rng)) of
        None \<Rightarrow> None
      | Some sets \<Rightarrow>
          (let r = join ''||'' (map (join '' '') sets) in Some (if r = [] then ''*'' else r)))"

definition rangeSets :: "string \<Rightarrow> comparator list list option" where
  "rangeSets rng =
     (case allSome (map desugarSet (split_or [] rng)) of
        None \<Rightarrow> None
      | Some sets \<Rightarrow> allSome (map (\<lambda>set. allSome (map parseComparator set)) sets))"

definition testComparator :: "sver \<Rightarrow> comparator \<Rightarrow> bool" where
  "testComparator v c =
     (let r = compareVersions v (snd c); op = fst c
      in if op = ''<'' then r < 0 else if op = ''<='' then r \<le> 0
         else if op = ''>'' then r > 0 else if op = ''>='' then r \<ge> 0 else r = 0)"

text \<open>
  A version with a prerelease tag satisfies a comparator set only if some comparator of
  the set has a prerelease tag on the same major, minor and patch numbers.
\<close>

definition testSet :: "sver \<Rightarrow> comparator list \<Rightarrow> bool" where
  "testSet v cs =
     (list_all (testComparator v) cs \<and>
      (pre v = [] \<or>
       list_ex (\<lambda>c. pre (snd c) \<noteq> [] \<and> major (snd c) = major v
                  \<and> minor (snd c) = minor v \<and> patch (snd c) = patch v) cs))"

definition ref_satisfies :: "string \<Rightarrow> string \<Rightarrow> bool" where
  "ref_satisfies v rng =
     (case parseVersion v of
        None \<Rightarrow> False
      | Some pv \<Rightarrow> (case rangeSets rng of None \<Rightarrow> False | Some sets \<Rightarrow> list_ex (testSet pv) sets))"

definition increasing :: "string \<Rightarrow> bool" where
  "increasing op = (op = ''>='' \<or> op = ''>'')"

definition decreasing :: "string \<Rightarrow> bool" where
  "decreasing op = (op = ''<='' \<or> op = ''<'')"

definition comparatorIntersects :: "comparator \<Rightarrow> comparator \<Rightarrow> bool" where
  "comparatorIntersects a b =
     (if fst a = [] then testSet (snd a) [b]
      else if fst b = [] then testSet (snd b) [a]
      else
        (increasing (fst a) \<and> increasing (fst b)) \<or>
        (decreasing (fst a) \<and> decreasing (fst b)) \<or>
        (snd a = snd b \<and> fst a \<in> set [''>='', ''<=''] \<and> fst b \<in> set [''>='', ''<='']) \<or>
        (compareVersions (snd a) (snd b) < 0 \<and> increasing (fst a) \<and> decreasing (fst b)) \<or>
        (compareVersions (snd a) (snd b) > 0 \<and> decreasing (fst a) \<and> increasing (fst b)))"

definition ref_intersects :: "string \<Rightarrow> string \<Rightarrow> bool option" where
  "ref_intersects r1 r2 =
     (case rangeSets r1 of
        None \<Rightarrow> None
      | Some sets1 \<Rightarrow>
          (case rangeSets r2 of
             None \<Rightarrow> None
           | Some sets2 \<Rightarrow>
               Some (list_ex (\<lambda>s1. list_ex (\<lambda>s2.
                 list_all (\<lambda>a. list_all (comparatorIntersects a) s2) s1) sets2) sets1)))"

definition ref_compare :: "(int \<Rightarrow> bool) \<Rightarrow> string \<Rightarrow> string \<Rightarrow> bool option" where
  "ref_compare ok a b =
     (case parseVersion a of
        None \<Rightarrow> None
      | Some x \<Rightarrow> (case parseVersion b of None \<Rightarrow> None | Some y \<Rightarrow> Some (ok (compareVersions x y))))"

definition ref_prerelease :: "string \<Rightarrow> ident list option" where
  "ref_prerelease v =
     (case parseVersion v of None \<Rightarrow> None | Some p \<Rightarrow> if pre p = [] then None else Some (pre p))"

definition ref_semver :: semver where
  "ref_semver =
     \<lparr>semver_major = (\<lambda>v. map_option major (parseVersion v)),
      semver_minor = (\<lambda>v. map_option minor (parseVersion v)),
      semver_prerelease = ref_prerelease,
      semver_satisfies = ref_satisfies,
      semver_intersects = ref_intersects,
      semver_validRange = ref_validRange,
      semver_lt = ref_compare (\<lambda>r. r < 0),
      semver_gt = ref_compare (\<lambda>r. r > 0),
      semver_eq = ref_compare (\<lambda>r. r = 0)\<rparr>"

subsection \<open>The earlier variant of parseRange\<close>



section \<open>The specification's vocabulary\<close>

subsection \<open>The shorthand table\<close>

text \<open>
  A string matches the pattern \<^verbatim>\<open>>=MIN <MAX\<close> (\<open>inclusive\<close> false) or \<^verbatim>\<open>>=MIN <=MAX\<close>
  (\<open>inclusive\<close> true), and the notation the specification assigns to it, from the
  major and minor numbers of both versions.
\<close>

definition matchesPattern :: "string \<Rightarrow> string \<Rightarrow> bool \<Rightarrow> string \<Rightarrow> bool" where
  "matchesPattern s mn inclusive mx =
     (isVersion mn \<and> isPlainVersion mx \<and>
      s = ''>='' @ mn @ '' <'' @ (if inclusive then ''='' else []) @ mx)"

definition shorthand_spec :: "string \<Rightarrow> bool \<Rightarrow> string \<Rightarrow> nat \<Rightarrow> nat \<Rightarrow> nat \<Rightarrow> nat \<Rightarrow> string" where
  "shorthand_spec mn inclusive mx major_min major_max minor_min minor_max =
     (if mn = mx then mn
      else if inclusive then mn @ '' - '' @ mx
      else if major_min = 0 \<and> major_max = 0 then
        (if minor_min = 0 \<and> minor_max = 0 then ''^'' @ mn
         else if minor_min = 0 then ''~'' @ mn
         else ''^'' @ mn)
      else if major_min \<noteq> major_max \<and> major_min = 0 then ''0''
      else if major_min \<noteq> major_max then ''^'' @ mn
      else ''~'' @ mn)"

subsection \<open>Comparators and bounds\<close>

text \<open>
  The package orders two versions as \<open>ord\<close> when its three comparisons return and agree
  with \<open>ord\<close>. A comparator is strict when its condition is \<^verbatim>\<open><\<close> or \<^verbatim>\<open>>\<close>.
\<close>

datatype ordering = LT | EQ | GT

definition orders :: "semver \<Rightarrow> string \<Rightarrow> string \<Rightarrow> ordering \<Rightarrow> bool" where
  "orders sv v w ord =
     (semver_gt sv v w = Some (ord = GT) \<and> semver_lt sv v w = Some (ord = LT) \<and>
      semver_eq sv v w = Some (ord = EQ))"

definition isStrict :: "string \<Rightarrow> bool" where
  "isStrict cond = (cond = ''<'' \<or> cond = ''>'')"

text \<open>
  The general compatibility rule: the opposing bound is empty, or the version of the
  clause satisfies it and the two ranges overlap.
\<close>

definition compatible :: "semver \<Rightarrow> string \<Rightarrow> string \<Rightarrow> string option \<Rightarrow> bool" where
  "compatible sv rng v bound =
     (case bound of
        None \<Rightarrow> True
      | Some b \<Rightarrow> b = [] \<or> (semver_satisfies sv v b \<and> semver_intersects sv rng b = Some True))"


text \<open>A wildcard comparator.\<close>

definition isWildcard :: "string \<Rightarrow> bool" where
  "isWildcard c = (c = ''x'' \<or> c = ''X'' \<or> c = ''*'')"

subsection \<open>Branches of the cross product\<close>

text \<open>
  The outcome of every pair (existing bound pair, conjunction) of one step, in the order
  of \<open>allPairs\<close>; the bound pairs that survive, and the errors of the pairs that fail.
\<close>

definition attempt :: "semver \<Rightarrow> boundPair \<times> string list \<Rightarrow> error + boundPair" where
  "attempt sv pair = reduceUpdateBounds sv (fst pair) (snd pair)"

definition outcomes :: "semver \<Rightarrow> boundPair list \<Rightarrow> string list list \<Rightarrow> (error + boundPair) list" where
  "outcomes sv boundsUnion rangeUnion =
     map (attempt sv) (allPairs boundsUnion rangeUnion)"

fun survivors :: "(error + 'a) list \<Rightarrow> 'a list" where
  "survivors [] = []"
| "survivors (Inr b # rs) = b # survivors rs"
| "survivors (Inl e # rs) = survivors rs"

fun failures :: "(error + 'a) list \<Rightarrow> error list" where
  "failures [] = []"
| "failures (Inr b # rs) = failures rs"
| "failures (Inl e # rs) = e # failures rs"

definition firstFailure :: "(error + 'a) list \<Rightarrow> error" where
  "firstFailure rs = (case failures rs of [] \<Rightarrow> Thrown_undefined | e # _ \<Rightarrow> e)"

subsection \<open>Canonical comparators and ranked versions\<close>

text \<open>
  The condition and the version that \<open>parseRange\<close> reads off a string (they do not depend
  on the package). A comparator is canonical when it is one of \<^verbatim>\<open>>\<close>, \<^verbatim>\<open>>=\<close>, \<^verbatim>\<open><\<close>,
  \<^verbatim>\<open><=\<close> followed by its version and nothing else. The package ranks two versions as
  \<open>rank\<close> does when its three comparisons return what the order of the ranks says, and
  versions of equal rank are written the same. \<open>mergeAll\<close> folds \<open>mergeBounds\<close> over the
  clauses of one side; \<open>below\<close> is the order in which \<open>mergeBounds\<close> prefers its
  second clause to the first.
\<close>

definition condOf :: "string \<Rightarrow> string" where
  "condOf r = (case conditionMatch r of None \<Rightarrow> ''='' | Some c \<Rightarrow> c)"

definition versionOf :: "string \<Rightarrow> string" where
  "versionOf r = (case versionMatch r of None \<Rightarrow> [] | Some v \<Rightarrow> v)"

definition canonical :: "string \<Rightarrow> bool" where
  "canonical r =
     (versionMatch r \<noteq> None \<and> condOf r \<in> set [''>'', ''>='', ''<'', ''<=''] \<and>
      r = condOf r @ versionOf r)"

definition ranked :: "semver \<Rightarrow> (string \<Rightarrow> nat) \<Rightarrow> string \<Rightarrow> string \<Rightarrow> bool" where
  "ranked sv rank v w =
     (semver_gt sv v w = Some (rank w < rank v) \<and> semver_lt sv v w = Some (rank v < rank w) \<and>
      semver_eq sv v w = Some (rank v = rank w) \<and> (rank v = rank w \<longrightarrow> v = w))"

definition upperClause :: "string \<Rightarrow> bool" where
  "upperClause r = startsWith (condOf r) ''<''"

fun mergeAll :: "semver \<Rightarrow> string option \<Rightarrow> string list \<Rightarrow> error + string option" where
  "mergeAll sv bound [] = Inr bound"
| "mergeAll sv bound (r # rs) = and_then (mergeBounds sv r bound) (\<lambda>b. mergeAll sv (Some b) rs)"

definition tighter :: "bool \<Rightarrow> nat \<Rightarrow> nat \<Rightarrow> bool" where
  "tighter upper a b = (if upper then a < b else b < a)"

definition below :: "bool \<Rightarrow> (string \<Rightarrow> nat) \<Rightarrow> string \<Rightarrow> string \<Rightarrow> bool" where
  "below upper rank r m =
     (tighter upper (rank (versionOf m)) (rank (versionOf r)) \<or>
      (rank (versionOf r) = rank (versionOf m) \<and> (isStrict (condOf m) \<or> \<not> isStrict (condOf r))))"

text \<open>
  An exact clause is a version and nothing else. Folding it pins both bounds to that
  version. A version lies within a comparator when its rank is on the comparator's side of
  the comparator's version. The package is sound at a clause \<open>c\<close> and a bound \<open>b\<close>
  when the calls that \<open>ensureCompatible\<close> makes for them return true only where the ranks
  agree: \<^verbatim>\<open>satisfies\<close> only for a version within the range, \<^verbatim>\<open>intersects\<close> of two
  comparators of opposite sides only where the bound's version lies within the clause.
\<close>

definition exactClause :: "string \<Rightarrow> bool" where
  "exactClause r = (versionMatch r = Some r)"

definition clause :: "string \<Rightarrow> bool" where
  "clause r = (canonical r \<or> exactClause r)"

definition within :: "(string \<Rightarrow> nat) \<Rightarrow> string \<Rightarrow> string \<Rightarrow> bool" where
  "within rank v c =
     (let w = rank (versionOf c); k = condOf c
      in if k = ''>='' then w \<le> rank v
         else if k = ''>'' then w < rank v
         else if k = ''<='' then rank v \<le> w
         else if k = ''<'' then rank v < w
         else rank v = w)"

definition sound :: "semver \<Rightarrow> (string \<Rightarrow> nat) \<Rightarrow> string \<Rightarrow> string \<Rightarrow> bool" where
  "sound sv rank c b =
     ((semver_satisfies sv (versionOf c) b \<longrightarrow> within rank (versionOf c) b) \<and>
      (semver_satisfies sv (versionOf b) c \<longrightarrow> within rank (versionOf b) c) \<and>
      (semver_satisfies sv (versionOf c) (c @ '' '' @ b) \<longrightarrow>
         within rank (versionOf c) c \<and> within rank (versionOf c) b) \<and>
      (upperClause c \<noteq> upperClause b \<and> semver_intersects sv c b = Some True \<longrightarrow>
         condOf c = ''='' \<or> within rank (versionOf b) c))"

definition pinned :: "string \<Rightarrow> boundPair" where
  "pinned e = \<lparr>lowerBound = Some (''>='' @ e), upperBound = Some (''<='' @ e)\<rparr>"

text \<open>The position of a version in a list of versions, as a rank.\<close>

definition rankIn :: "string list \<Rightarrow> string \<Rightarrow> nat" where
  "rankIn vs v = length (takeWhile (\<lambda>w. w \<noteq> v) vs)"

section \<open>Properties\<close>

subsection \<open>The unit tests of the repository\<close>

text \<open>
  The expectations of the repository's unit tests, on the ranges that the reference
  instance covers (a hyphen range is written as its two comparators).
\<close>

lemma test_createShorthand:
  "createShorthand ref_semver ''4.0.0'' = Inr ''4.0.0''"
  "createShorthand ref_semver ''>=4.0.0 <5.0.0'' = Inr ''^4.0.0''"
  "createShorthand ref_semver ''>=4.0.0 <4.1.0'' = Inr ''~4.0.0''"
  "createShorthand ref_semver ''>=4.0.0-alpha <5.0.0'' = Inr ''^4.0.0-alpha''"
  "createShorthand ref_semver ''>=4.0.0-beta.1 <4.1.0'' = Inr ''~4.0.0-beta.1''"
  "createShorthand ref_semver ''>=0.14.0 <0.15.0'' = Inr ''^0.14.0''"
  "createShorthand ref_semver ''>=0.0.5 <0.0.6'' = Inr ''^0.0.5''"
  "createShorthand ref_semver ''>=0.0.5 <0.1.0'' = Inr ''~0.0.5''"
  "createShorthand ref_semver ''>=0.0.0 <1.0.0'' = Inr ''0''"
  "createShorthand ref_semver ''>=0.0.0 <0.1.0'' = Inr ''~0.0.0''"
  "createShorthand ref_semver ''>=0.0.0 <0.0.1'' = Inr ''^0.0.0''"
  "createShorthand ref_semver ''>=1.0.0 <=1.5.3'' = Inr ''1.0.0 - 1.5.3''"
  "createShorthand ref_semver ''>4.0.0 <4.9.1'' = Inr ''>4.0.0 <4.9.1''"
  "createShorthand ref_semver ''4.0.0 - 4.0.5'' = Inr ''4.0.0 - 4.0.5''"
  by code_simp+

lemma test_ensureCompatible:
  "ensureCompatible ref_semver ''>=3.0.0'' [Some ''<2.0.0''] =
     Inl (Error ''Range >=3.0.0 is not compatible with <2.0.0'')"
  "ensureCompatible ref_semver ''<1.0.0'' [Some ''>=2.0.0''] =
     Inl (Error ''Range <1.0.0 is not compatible with >=2.0.0'')"
  "ensureCompatible ref_semver ''3.0.0'' [Some ''<2.0.0''] =
     Inl (Error ''Range 3.0.0 is not compatible with <2.0.0'')"
  "ensureCompatible ref_semver ''2.0.0'' [Some ''>=3.0.0''] =
     Inl (Error ''Range 2.0.0 is not compatible with >=3.0.0'')"
  "ensureCompatible ref_semver ''2.0.0'' [Some ''>=1.0.0''] = Inr ()"
  "ensureCompatible ref_semver ''2.0.0'' [] = Inr ()"
  "ensureCompatible ref_semver ''>=2.0.0'' [Some ''<5.0.0''] = Inr ()"
  "ensureCompatible ref_semver ''<4.0.0'' [Some ''>2.0.0''] = Inr ()"
  by code_simp+

lemma test_expandRanges:
  "expandRanges ref_semver [''>=3.0.0 <4.0.0'', ''>=3.1.0 <4.0.0'', ''>=3.3.0''] =
     Inr [[[''>=3.0.0'', ''<4.0.0'']], [[''>=3.1.0'', ''<4.0.0'']], [[''>=3.3.0'']]]"
  "expandRanges ref_semver [''1.* || 3.2.*'', ''*''] =
     Inr [[[''>=1.0.0'', ''<2.0.0''], [''>=3.2.0'', ''<3.3.0'']], [[''>=0.0.0'']]]"
  by code_simp+

lemma test_formatIntersection:
  "formatIntersection \<lparr>lowerBound = Some ''3.0.0'', upperBound = Some ''3.0.0''\<rparr> = ''3.0.0''"
  "formatIntersection \<lparr>lowerBound = Some ''>=3.0.0'', upperBound = None\<rparr> = ''>=3.0.0''"
  "formatIntersection \<lparr>lowerBound = None, upperBound = Some ''<4.0.0''\<rparr> = ''<4.0.0''"
  "formatIntersection \<lparr>lowerBound = Some ''>=3.0.0'', upperBound = Some ''<4.0.0''\<rparr>
     = ''>=3.0.0 <4.0.0''"
  by code_simp+

lemma test_mergeBounds:
  "mergeBounds ref_semver ''>=5.0.0'' None = Inr ''>=5.0.0''"
  "mergeBounds ref_semver ''>=5.0.0'' (Some ''>=5.1.0'') = Inr ''>=5.1.0''"
  "mergeBounds ref_semver ''>=5.5.0'' (Some ''>=5.1.0'') = Inr ''>=5.5.0''"
  "mergeBounds ref_semver ''<4.2.0'' (Some ''<4.1.0'') = Inr ''<4.1.0''"
  "mergeBounds ref_semver ''<4.0.5'' (Some ''<4.1.0'') = Inr ''<4.0.5''"
  "mergeBounds ref_semver ''<4.1.0'' (Some ''<=4.1.0'') = Inr ''<4.1.0''"
  by code_simp+

lemma test_parseRange:
  "parseRange ref_semver ''<5.0.0'' = Inr \<lparr>condition = ''<'', prerelease = None, version = ''5.0.0''\<rparr>"
  "parseRange ref_semver ''>=4.0.0'' = Inr \<lparr>condition = ''>='', prerelease = None, version = ''4.0.0''\<rparr>"
  "parseRange ref_semver ''3.0.0'' = Inr \<lparr>condition = ''='', prerelease = None, version = ''3.0.0''\<rparr>"
  by code_simp+

lemma test_distinct: "distinct_arr [1, 5, 2, 3, 4, 5, 3 :: nat] = [1, 5, 2, 3, 4]"
  by code_simp

lemma test_intersect:
  "intersect ref_semver [''4.0.0''] = Inr ''4.0.0''"
  "intersect ref_semver [''^4.0.0'', ''^4.3.0''] = Inr ''^4.3.0''"
  "intersect ref_semver [''^4.0.0'', ''~4.3.0''] = Inr ''~4.3.0''"
  "intersect ref_semver [''4.x'', ''~4.3.0''] = Inr ''~4.3.0''"
  "intersect ref_semver [''^4.1.2 || ^5.2.3'', ''~4.3.0''] = Inr ''~4.3.0''"
  "intersect ref_semver [''1.*'', ''~1.3.0''] = Inr ''~1.3.0''"
  "intersect ref_semver [''^4.0.0 || ^5.1.2'', ''^4.1.2 || ^5.0.0''] = Inr ''^4.1.2 || ^5.1.2''"
  "intersect ref_semver [''1.5.16'', ''^1.0.0''] = Inr ''1.5.16''"
  "intersect ref_semver [''^4.0.0'', ''~4.3.89'', ''~4.3.24'', ''~4.3.63''] = Inr ''~4.3.89''"
  "intersect ref_semver [''>=1.0.0 <=1.5.3''] = Inr ''1.0.0 - 1.5.3''"
  by code_simp+

lemma test_intersect_prerelease:
  "intersect ref_semver [''^1.0.0-alpha.3'', ''^1.2.0''] = Inr ''^1.2.0''"
  "intersect ref_semver [''^1.0.0-alpha.3'', ''^1.0.0-alpha.4''] = Inr ''^1.0.0-alpha.4''"
  "intersect ref_semver [''^0.14.0-beta2'', ''^0.14.0-beta3''] = Inr ''^0.14.0-beta3''"
  "intersect ref_semver [''^0.14.0-beta'', ''^0.14.0-beta4''] = Inr ''^0.14.0-beta4''"
  "intersect ref_semver [''^1.9.0-alpha'', ''^1.9.0-beta''] = Inr ''^1.9.0-beta''"
  "intersect ref_semver [''^1.9.0-beta'', ''^1.9.0-alpha''] = Inr ''^1.9.0-beta''"
  "intersect ref_semver [''^1.9.0-alpha.1'', ''^1.9.0-beta.2''] = Inr ''^1.9.0-beta.2''"
  "intersect ref_semver [''^1.9.0-alpha'', ''^1.9.1-alpha''] =
     Inl (Error ''Range >=1.9.1-alpha is not compatible with >=1.9.0-alpha'')"
  "intersect ref_semver [''1.9.0-alpha.1'', ''^1.9.0-alpha.2''] =
     Inl (Error ''Range >=1.9.0-alpha.2 is not compatible with <=1.9.0-alpha.1'')"
  "intersect ref_semver [''1.9.0-alpha.1'', ''1.9.0-alpha.0''] =
     Inl (Error ''Range 1.9.0-alpha.0 is not compatible with >=1.9.0-alpha.1'')"
  "intersect ref_semver [''1.9.0-rc3'', ''^1.9.0-rc4''] =
     Inl (Error ''Range >=1.9.0-rc4 is not compatible with <=1.9.0-rc3'')"
  by code_simp+

lemma test_intersect_incompatible:
  "intersect ref_semver [''^4.0.0'', ''~4.3.0'', ''^4.4.0''] =
     Inl (Error ''Range >=4.4.0 is not compatible with <4.4.0'')"
  "intersect ref_semver [''^1.0.0 || ^3.0.0'', ''^2.0.0''] =
     Inl (Error ''Range >=2.0.0 is not compatible with <2.0.0'')"
  "intersect ref_semver [''^5.0.0'', ''^4.0.1''] =
     Inl (Error ''Range <5.0.0 is not compatible with >=5.0.0'')"
  "intersect ref_semver [''^5.0.0'', ''^3.0.0''] =
     Inl (Error ''Range <4.0.0 is not compatible with >=5.0.0'')"
  "intersect ref_semver [''~5.1.0'', ''~5.2.0''] =
     Inl (Error ''Range >=5.2.0 is not compatible with <5.2.0'')"
  "intersect ref_semver [''^0.5.0'', ''^0.4.0''] =
     Inl (Error ''Range <0.5.0 is not compatible with >=0.5.0'')"
  by code_simp+

subsection \<open>The regular expressions\<close>

lemma digits_Some:
  "digits s = Some r \<Longrightarrow> s = takeWhile isDigit s @ r \<and> takeWhile isDigit s \<noteq> []"
  by (auto simp: digits_def split: if_splits)

lemma digits_hd: "digits s = Some r \<Longrightarrow> s \<noteq> [] \<and> isDigit (hd s)"
  by (cases s) (auto simp: digits_def split: if_splits)

lemma numbers_hd: "numbers s = Some r \<Longrightarrow> s \<noteq> [] \<and> isDigit (hd s)"
  unfolding numbers_def
  by (cases "digits s") (auto dest: digits_hd simp: Option.bind_eq_Some_conv)

lemma isVersion_hd: "isVersion s \<Longrightarrow> s \<noteq> [] \<and> isDigit (hd s)"
  unfolding isVersion_def by (cases "numbers s") (auto dest: numbers_hd)

lemma minMax_prefix: "minMax s = Some (mn, mx) \<Longrightarrow> take 2 s = ''>=''"
  by (auto simp: minMax_def Let_def split: if_splits)

lemma minMax_isVersion: "minMax s = Some (mn, mx) \<Longrightarrow> isVersion mn"
  by (auto simp: minMax_def Let_def split: if_splits)

lemma minMax_None: "take 2 s \<noteq> ''>='' \<Longrightarrow> minMax s = None"
  by (simp add: minMax_def)

lemma digits_set: "digits s = Some r \<Longrightarrow> \<exists>d. s = d @ r \<and> d \<noteq> [] \<and> (\<forall>c\<in>set d. isDigit c)"
  by (metis digits_Some set_takeWhileD)

lemma dot_Some: "dot s = Some r \<Longrightarrow> s = CHR ''.'' # r"
  by (cases s) (auto split: if_splits)

lemma numbers_shape:
  assumes "numbers s = Some r"
  shows "\<exists>a b c. s = a @ CHR ''.'' # b @ CHR ''.'' # c @ r \<and>
           (\<forall>x\<in>set (a @ b @ c). isDigit x) \<and> a \<noteq> []"
proof -
  from assms obtain r1 r2 r3 r4 where
    1: "digits s = Some r1" and 2: "dot r1 = Some r2" and 3: "digits r2 = Some r3"
    and 4: "dot r3 = Some r4" and 5: "digits r4 = Some r"
    unfolding numbers_def by (auto simp: Option.bind_eq_Some_conv)
  from digits_set [OF 1] obtain a where a: "s = a @ r1" "a \<noteq> []" "\<forall>c\<in>set a. isDigit c" by blast
  from digits_set [OF 3] obtain b where b: "r2 = b @ r3" "\<forall>c\<in>set b. isDigit c" by blast
  from digits_set [OF 5] obtain c where c: "r4 = c @ r" "\<forall>x\<in>set c. isDigit x" by blast
  have "s = a @ CHR ''.'' # b @ CHR ''.'' # c @ r"
    using a b c dot_Some [OF 2] dot_Some [OF 4] by simp
  moreover have "\<forall>x\<in>set (a @ b @ c). isDigit x" using a b c by auto
  ultimately show ?thesis using a(2) by blast
qed

lemma isDigit_plain: "isDigit c \<Longrightarrow> c \<noteq> CHR '' '' \<and> c \<noteq> CHR ''<'' \<and> c \<noteq> CHR ''='' \<and> isWordOrDot c"
  by (auto simp: isDigit_def isWordOrDot_def isWord_def)

lemma isWordOrDot_plain: "isWordOrDot c \<Longrightarrow> c \<noteq> CHR '' '' \<and> c \<noteq> CHR ''<''"
  by (auto simp: isDigit_def isWordOrDot_def isWord_def)

lemma isVersion_chars:
  assumes "isVersion s" and "c \<in> set s"
  shows "c \<noteq> CHR '' '' \<and> c \<noteq> CHR ''<''"
proof -
  from assms(1) obtain r where r: "numbers s = Some r"
    and t: "r = [] \<or> (\<exists>t. r = CHR ''-'' # t \<and> list_all isWordOrDot t)"
    unfolding isVersion_def by (auto split: option.splits list.splits)
  from numbers_shape [OF r] obtain a b d where
    s: "s = a @ CHR ''.'' # b @ CHR ''.'' # d @ r" and dg: "\<forall>x\<in>set (a @ b @ d). isDigit x"
    by blast
  have "\<forall>x\<in>set r. x \<noteq> CHR '' '' \<and> x \<noteq> CHR ''<''"
    using t isWordOrDot_plain by (fastforce simp: list_all_iff)
  then show ?thesis using assms(2) s dg isDigit_plain by auto
qed

lemma isPlainVersion_isVersion: "isPlainVersion s \<Longrightarrow> isVersion s"
  by (simp add: isPlainVersion_def isVersion_def)

lemma takeWhile_until:
  "\<forall>c\<in>set a. P c \<Longrightarrow> \<not> P x \<Longrightarrow> takeWhile P (a @ x # r) = a \<and> dropWhile P (a @ x # r) = x # r"
  by (induction a) auto

lemma minMax_pattern:
  assumes "matchesPattern s mn inclusive mx"
  shows "minMax s = Some (mn, mx)"
proof -
  from assms have v: "isVersion mn" and p: "isPlainVersion mx"
    and s: "s = ''>='' @ mn @ '' <'' @ (if inclusive then ''='' else []) @ mx"
    by (auto simp: matchesPattern_def)
  have ns: "\<forall>c\<in>set mn. c \<noteq> CHR '' ''" using isVersion_chars [OF v] by blast
  let ?rest = "(if inclusive then ''='' else []) @ mx"
  have tw: "takeWhile (\<lambda>c. c \<noteq> CHR '' '') (mn @ CHR '' '' # CHR ''<'' # ?rest) = mn"
       "dropWhile (\<lambda>c. c \<noteq> CHR '' '') (mn @ CHR '' '' # CHR ''<'' # ?rest) = CHR '' '' # CHR ''<'' # ?rest"
    using takeWhile_until [of mn "\<lambda>c. c \<noteq> CHR '' ''" "CHR '' ''"] ns by auto
  have hd: "mx \<noteq> [] \<and> hd mx \<noteq> CHR ''=''"
    using isVersion_hd [OF isPlainVersion_isVersion [OF p]] isDigit_plain by blast
  then have mx: "(if take 1 ?rest = ''='' then drop 1 ?rest else ?rest) = mx"
    by (cases mx) auto
  show ?thesis
    unfolding minMax_def s using tw v p mx by (simp add: Let_def)
qed

lemma pattern_minMax:
  assumes "minMax s = Some (mn, mx)"
  shows "\<exists>inclusive. matchesPattern s mn inclusive mx"
proof -
  let ?rest = "drop 2 s"
  let ?after = "dropWhile (\<lambda>c. c \<noteq> CHR '' '') ?rest"
  let ?r = "drop 2 ?after"
  from assms have h: "take 2 s = ''>=''" "mn = takeWhile (\<lambda>c. c \<noteq> CHR '' '') ?rest"
    "isVersion mn" "take 2 ?after = '' <''"
    "mx = (if take 1 ?r = ''='' then drop 1 ?r else ?r)" "isPlainVersion mx"
    by (auto simp: minMax_def Let_def split: if_splits)
  have 1: "s = ''>='' @ ?rest" using h(1) by (metis append_take_drop_id)
  have 2: "?rest = mn @ ?after" using h(2) by simp
  have 3: "?after = '' <'' @ ?r" using h(4) by (metis append_take_drop_id)
  show ?thesis
  proof (cases "take 1 ?r = ''=''")
    case True
    then have "?r = ''='' @ mx" using h(5) by (metis append_take_drop_id)
    then have "s = ''>='' @ mn @ '' <'' @ ''='' @ mx" using 1 2 3 by metis
    then have "matchesPattern s mn True mx" using h by (simp add: matchesPattern_def)
    then show ?thesis ..
  next
    case False
    then have "?r = mx" using h(5) by simp
    then have "s = ''>='' @ mn @ '' <'' @ mx" using 1 2 3 by metis
    then have "matchesPattern s mn False mx" using h by (simp add: matchesPattern_def)
    then show ?thesis ..
  qed
qed

lemma str_includes_Cons:
  "str_includes (c # s) ''<='' = ((c = CHR ''<'' \<and> take 1 s = ''='') \<or> str_includes s ''<='')"
  by (cases s) auto

lemma str_includes_free:
  "\<forall>c\<in>set a. c \<noteq> CHR ''<'' \<Longrightarrow> str_includes (a @ t) ''<='' = str_includes t ''<=''"
proof (induction a)
  case Nil
  then show ?case by simp
next
  case (Cons x a)
  then show ?case by (simp only: append_Cons str_includes_Cons) auto
qed

lemma str_includes_pattern:
  assumes "matchesPattern s mn inclusive mx"
  shows "str_includes s ''<='' = inclusive"
proof -
  from assms have v: "isVersion mn" and p: "isPlainVersion mx"
    and s: "s = ''>='' @ mn @ '' <'' @ (if inclusive then ''='' else []) @ mx"
    by (auto simp: matchesPattern_def)
  have a: "\<forall>c\<in>set (''>='' @ mn @ '' ''). c \<noteq> CHR ''<''"
    using isVersion_chars [OF v] by auto
  have m: "\<forall>c\<in>set mx. c \<noteq> CHR ''<''"
    using isVersion_chars [OF isPlainVersion_isVersion [OF p]] by blast
  have hd: "mx \<noteq> [] \<and> hd mx \<noteq> CHR ''=''"
    using isVersion_hd [OF isPlainVersion_isVersion [OF p]] isDigit_plain by blast
  have e: "str_includes mx ''<='' = False"
    using str_includes_free [OF m, of "[]"] by simp
  have "s = (''>='' @ mn @ '' '') @ (CHR ''<'' # (if inclusive then ''='' else []) @ mx)"
    using s by simp
  then have "str_includes s ''<='' = str_includes (CHR ''<'' # (if inclusive then ''='' else []) @ mx) ''<=''"
    using str_includes_free [OF a] by metis
  also have "\<dots> = inclusive"
  proof (cases inclusive)
    case True
    then show ?thesis by (simp only: str_includes_Cons) simp
  next
    case False
    have "take 1 mx \<noteq> ''=''" using hd by (cases mx) auto
    then show ?thesis using False e by (simp only: str_includes_Cons) simp
  qed
  finally show ?thesis .
qed

subsection \<open>createShorthand\<close>

lemma createShorthand_unmatched: "minMax s = None \<Longrightarrow> createShorthand sv s = Inr s"
  by (simp add: createShorthand_def)

lemma not_prefix_digit: "s \<noteq> [] \<Longrightarrow> isDigit (hd s) \<Longrightarrow> take 2 (s @ t) \<noteq> ''>=''"
  by (cases s) (auto simp: isDigit_def)

lemma createShorthand_matched:
  assumes "minMax x = Some (mn, mx)" and "createShorthand sv x = Inr y"
  shows "y \<in> {mn, mn @ '' - '' @ mx, ''^'' @ mn, ''~'' @ mn, ''0''}"
  using assms
  by (auto simp: createShorthand_def and_then_def lift_def split: if_splits option.splits sum.splits)

lemma createShorthand_fixed:
  assumes "createShorthand sv x = Inr y"
  shows "createShorthand sv y = Inr y"
proof (cases "minMax x")
  case None
  with assms show ?thesis by (simp add: createShorthand_def)
next
  case (Some m)
  obtain mn mx where m: "m = (mn, mx)" by (cases m)
  have v: "mn \<noteq> [] \<and> isDigit (hd mn)"
    using Some m minMax_isVersion isVersion_hd by blast
  have "y \<in> {mn, mn @ '' - '' @ mx, ''^'' @ mn, ''~'' @ mn, ''0''}"
    using createShorthand_matched Some m assms by blast
  moreover have "take 2 mn \<noteq> ''>=''" using not_prefix_digit [of mn "[]"] v by simp
  moreover have "take 2 (mn @ '' - '' @ mx) \<noteq> ''>=''" using not_prefix_digit v by blast
  ultimately have "take 2 y \<noteq> ''>=''" by auto
  then show ?thesis by (simp add: minMax_None createShorthand_unmatched)
qed

text \<open>
  Claim C3. On a string that matches \<^verbatim>\<open>>=MIN <MAX\<close> or \<^verbatim>\<open>>=MIN <=MAX\<close>, and where the
  package returns the major and minor numbers of both versions, \<open>createShorthand\<close> returns
  the notation of the specification's table: \<open>MIN\<close> when \<open>MIN\<close> equals \<open>MAX\<close>, the
  hyphen range when the maximum is inclusive, the zero-major rules, \<^verbatim>\<open>0\<close>, the caret or
  the tilde. On a string that does not match the pattern it returns the string.
\<close>

theorem createShorthand_cases:
  "(\<forall>mn inclusive mx major_min major_max minor_min minor_max.
      matchesPattern rng mn inclusive mx \<and>
      semver_major sv mn = Some major_min \<and> semver_major sv mx = Some major_max \<and>
      semver_minor sv mn = Some minor_min \<and> semver_minor sv mx = Some minor_max \<longrightarrow>
      createShorthand sv rng =
        Inr (shorthand_spec mn inclusive mx major_min major_max minor_min minor_max)) \<and>
   ((\<forall>mn inclusive mx. \<not> matchesPattern rng mn inclusive mx) \<longrightarrow>
      createShorthand sv rng = Inr rng)"
proof (intro conjI allI impI)
  fix mn inclusive mx major_min major_max minor_min minor_max
  assume h: "matchesPattern rng mn inclusive mx \<and>
      semver_major sv mn = Some major_min \<and> semver_major sv mx = Some major_max \<and>
      semver_minor sv mn = Some minor_min \<and> semver_minor sv mx = Some minor_max"
  then have m: "minMax rng = Some (mn, mx)" and i: "str_includes rng ''<='' = inclusive"
    using minMax_pattern str_includes_pattern by blast+
  show "createShorthand sv rng =
        Inr (shorthand_spec mn inclusive mx major_min major_max minor_min minor_max)"
    using h m i by (simp add: createShorthand_def shorthand_spec_def and_then_def lift_def)
next
  assume n: "\<forall>mn inclusive mx. \<not> matchesPattern rng mn inclusive mx"
  have "minMax rng = None"
  proof (cases "minMax rng")
    case None
    then show ?thesis .
  next
    case (Some m)
    then show ?thesis using pattern_minMax n by (cases m) blast
  qed
  then show "createShorthand sv rng = Inr rng" by (rule createShorthand_unmatched)
qed

theorem createShorthand_cases_witness:
  "matchesPattern ''>=0.0.5 <0.1.0'' ''0.0.5'' False ''0.1.0'' \<and>
   semver_major ref_semver ''0.0.5'' = Some 0 \<and> semver_major ref_semver ''0.1.0'' = Some 0 \<and>
   semver_minor ref_semver ''0.0.5'' = Some 0 \<and> semver_minor ref_semver ''0.1.0'' = Some 1 \<and>
   createShorthand ref_semver ''>=0.0.5 <0.1.0'' = Inr ''~0.0.5'' \<and>
   (\<forall>mn inclusive mx. \<not> matchesPattern ''>4.0.0'' mn inclusive mx) \<and>
   createShorthand ref_semver ''>4.0.0'' = Inr ''>4.0.0''"
proof -
  have p: "matchesPattern ''>=0.0.5 <0.1.0'' ''0.0.5'' False ''0.1.0''" by code_simp
  have a: "semver_major ref_semver ''0.0.5'' = Some 0" by code_simp
  have b: "semver_major ref_semver ''0.1.0'' = Some 0" by code_simp
  have c: "semver_minor ref_semver ''0.0.5'' = Some 0" by code_simp
  have d: "semver_minor ref_semver ''0.1.0'' = Some 1" by code_simp
  have n: "\<forall>mn inclusive mx. \<not> matchesPattern ''>4.0.0'' mn inclusive mx"
    by (simp add: matchesPattern_def)
  have "createShorthand ref_semver ''>=0.0.5 <0.1.0'' =
          Inr (shorthand_spec ''0.0.5'' False ''0.1.0'' 0 0 0 1)"
    using createShorthand_cases [of "''>=0.0.5 <0.1.0''" ref_semver] p a b c d by blast
  moreover have "shorthand_spec ''0.0.5'' False ''0.1.0'' 0 0 0 1 = ''~0.0.5''"
    by (simp add: shorthand_spec_def)
  moreover have "createShorthand ref_semver ''>4.0.0'' = Inr ''>4.0.0''"
    using createShorthand_cases [of "''>4.0.0''" ref_semver] n by blast
  ultimately show ?thesis using p a b c d n by simp
qed

text \<open>
  Claim C9. \<open>createShorthand\<close> is idempotent: applied to its own result it returns that
  result again (and an exception of the first call is the exception of the composition).
\<close>

theorem createShorthand_idempotent:
  "and_then (createShorthand sv x) (createShorthand sv) = createShorthand sv x"
  by (cases "createShorthand sv x") (simp_all add: and_then_def createShorthand_fixed)

theorem createShorthand_idempotent_witness:
  "createShorthand ref_semver ''>=4.0.0 <5.0.0'' = Inr ''^4.0.0'' \<and>
   createShorthand ref_semver ''^4.0.0'' = Inr ''^4.0.0''"
proof -
  have 1: "createShorthand ref_semver ''>=4.0.0 <5.0.0'' = Inr ''^4.0.0''" by code_simp
  then show ?thesis
    using createShorthand_idempotent [of ref_semver "''>=4.0.0 <5.0.0''"]
    by (simp add: and_then_def)
qed

subsection \<open>parseRange\<close>

lemma versionMatch_Some:
  "versionMatch s = Some v \<Longrightarrow> isVersion v \<and> (\<exists>before. s = before @ v)"
proof (induction s)
  case Nil
  then show ?case by simp
next
  case (Cons c s)
  show ?case
  proof (cases "isVersion (c # s)")
    case True
    then have "v = c # s" using Cons.prems by simp
    then show ?thesis using True by simp
  next
    case False
    then have "versionMatch s = Some v" using Cons.prems by simp
    then obtain before where "isVersion v" "s = before @ v" using Cons.IH by blast
    then have "isVersion v \<and> c # s = (c # before) @ v" by simp
    then show ?thesis by blast
  qed
qed


lemma versionMatch_None:
  "versionMatch s = None \<Longrightarrow> s = before @ w \<Longrightarrow> \<not> isVersion w"
proof (induction s arbitrary: before)
  case Nil
  then show ?case by (simp add: isVersion_def numbers_def digits_def)
next
  case (Cons c s)
  have n: "\<not> isVersion (c # s)" and m: "versionMatch s = None"
    using Cons.prems(1) by (auto split: if_splits)
  show ?case
  proof (cases before)
    case Nil
    then show ?thesis using n Cons.prems(2) by simp
  next
    case (Cons x b')
    then have "s = b' @ w" using Cons.prems(2) by simp
    then show ?thesis using Cons.IH m by blast
  qed
qed







subsection \<open>mergeBounds\<close>

text \<open>
  Claim C5. \<open>mergeBounds\<close> returns the new clause when the existing bound is empty.
  Otherwise, where the package orders the two versions, a lower bound (condition starting
  with \<^verbatim>\<open>>\<close>) keeps the comparator of the greater version and an upper bound (condition
  starting with \<^verbatim>\<open><\<close>) that of the lesser version; on equal versions the new clause is
  returned exactly when its comparator is strict.
\<close>

theorem mergeBounds_cases:
  "(falsy bound \<longrightarrow> mergeBounds sv rng bound = Inr rng) \<and>
   (\<forall>b p pb ord.
      bound = Some b \<and> b \<noteq> [] \<and> parseRange sv rng = Inr p \<and> parseRange sv b = Inr pb \<and>
      orders sv (version p) (version pb) ord \<longrightarrow>
      (startsWith (condition p) ''>'' \<longrightarrow>
         mergeBounds sv rng bound =
           Inr (case ord of GT \<Rightarrow> rng | LT \<Rightarrow> b
                | EQ \<Rightarrow> if isStrict (condition p) then rng else b)) \<and>
      (startsWith (condition p) ''<'' \<longrightarrow>
         mergeBounds sv rng bound =
           Inr (case ord of LT \<Rightarrow> rng | GT \<Rightarrow> b
                | EQ \<Rightarrow> if isStrict (condition p) then rng else b)))"
proof (intro conjI allI impI)
  assume "falsy bound"
  then show "mergeBounds sv rng bound = Inr rng"
    by (auto simp: falsy_def mergeBounds_def)
next
  fix b p pb ord
  assume h: "bound = Some b \<and> b \<noteq> [] \<and> parseRange sv rng = Inr p \<and> parseRange sv b = Inr pb \<and>
      orders sv (version p) (version pb) ord"
  assume c: "startsWith (condition p) ''>''"
  then have n: "\<not> startsWith (condition p) ''<''"
    by (cases "condition p") (auto simp: startsWith_def)
  show "mergeBounds sv rng bound =
           Inr (case ord of GT \<Rightarrow> rng | LT \<Rightarrow> b
                | EQ \<Rightarrow> if isStrict (condition p) then rng else b)"
    using h n
    by (cases ord) (simp_all add: mergeBounds_def and_then_def lift_def orders_def isStrict_def)
next
  fix b p pb ord
  assume h: "bound = Some b \<and> b \<noteq> [] \<and> parseRange sv rng = Inr p \<and> parseRange sv b = Inr pb \<and>
      orders sv (version p) (version pb) ord"
  assume c: "startsWith (condition p) ''<''"
  show "mergeBounds sv rng bound =
           Inr (case ord of LT \<Rightarrow> rng | GT \<Rightarrow> b
                | EQ \<Rightarrow> if isStrict (condition p) then rng else b)"
    using h c
    by (cases ord) (simp_all add: mergeBounds_def and_then_def lift_def orders_def isStrict_def)
qed

theorem mergeBounds_cases_witness:
  "falsy None \<and> mergeBounds ref_semver ''>=5.0.0'' None = Inr ''>=5.0.0'' \<and>
   parseRange ref_semver ''<4.1.0'' = Inr \<lparr>condition = ''<'', prerelease = None, version = ''4.1.0''\<rparr> \<and>
   parseRange ref_semver ''<=4.1.0'' = Inr \<lparr>condition = ''<='', prerelease = None, version = ''4.1.0''\<rparr> \<and>
   orders ref_semver ''4.1.0'' ''4.1.0'' EQ \<and> startsWith ''<'' ''<'' \<and> isStrict ''<'' \<and>
   mergeBounds ref_semver ''<4.1.0'' (Some ''<=4.1.0'') = Inr ''<4.1.0'' \<and>
   parseRange ref_semver ''>=5.0.0'' = Inr \<lparr>condition = ''>='', prerelease = None, version = ''5.0.0''\<rparr> \<and>
   parseRange ref_semver ''>=5.1.0'' = Inr \<lparr>condition = ''>='', prerelease = None, version = ''5.1.0''\<rparr> \<and>
   orders ref_semver ''5.0.0'' ''5.1.0'' LT \<and> startsWith ''>='' ''>'' \<and>
   mergeBounds ref_semver ''>=5.0.0'' (Some ''>=5.1.0'') = Inr ''>=5.1.0''"
proof -
  have f: "falsy None" by (simp add: falsy_def)
  have 0: "mergeBounds ref_semver ''>=5.0.0'' None = Inr ''>=5.0.0''"
    using mergeBounds_cases [of None ref_semver "''>=5.0.0''"] f by blast
  have a: "parseRange ref_semver ''<4.1.0'' = Inr \<lparr>condition = ''<'', prerelease = None, version = ''4.1.0''\<rparr>"
    by code_simp
  have b: "parseRange ref_semver ''<=4.1.0'' = Inr \<lparr>condition = ''<='', prerelease = None, version = ''4.1.0''\<rparr>"
    by code_simp
  have c: "orders ref_semver ''4.1.0'' ''4.1.0'' EQ" by code_simp
  have d: "startsWith ''<'' ''<'' \<and> isStrict ''<''" by code_simp
  have 1: "mergeBounds ref_semver ''<4.1.0'' (Some ''<=4.1.0'') = Inr ''<4.1.0''"
    using mergeBounds_cases [of "Some ''<=4.1.0''" ref_semver "''<4.1.0''"] a b c d by fastforce
  have a2: "parseRange ref_semver ''>=5.0.0'' = Inr \<lparr>condition = ''>='', prerelease = None, version = ''5.0.0''\<rparr>"
    by code_simp
  have b2: "parseRange ref_semver ''>=5.1.0'' = Inr \<lparr>condition = ''>='', prerelease = None, version = ''5.1.0''\<rparr>"
    by code_simp
  have c2: "orders ref_semver ''5.0.0'' ''5.1.0'' LT" by code_simp
  have d2: "startsWith ''>='' ''>''" by code_simp
  have 2: "mergeBounds ref_semver ''>=5.0.0'' (Some ''>=5.1.0'') = Inr ''>=5.1.0''"
    using mergeBounds_cases [of "Some ''>=5.1.0''" ref_semver "''>=5.0.0''"] a2 b2 c2 d2 by fastforce
  show ?thesis using f 0 a b c d 1 a2 b2 c2 d2 2 by simp
qed

subsection \<open>ensureCompatible\<close>

lemma ensureCompatible_single:
  "parseRange sv rng = Inr p \<Longrightarrow> ensureCompatible sv rng [bound] = checkBound sv rng p bound"
  by (auto simp: ensureCompatible_def and_then_def split: sum.splits)

text \<open>
  Claim C2, as amended. A clause that is compatible with the opposing bound by the general
  rule is accepted. For a clause without a prerelease tag the converse holds too: it is
  accepted if and only if it is compatible by the general rule, and when it is not (and
  the package's \<^verbatim>\<open>intersects\<close> did not raise) the error has the message
  \<^verbatim>\<open>Range <clause> is not compatible with <bound>\<close>.
\<close>

theorem ensureCompatible_general:
  "(\<forall>p. parseRange sv rng = Inr p \<and> compatible sv rng (version p) bound \<longrightarrow>
        ensureCompatible sv rng [bound] = Inr ()) \<and>
   (\<forall>p. parseRange sv rng = Inr p \<and> prerelease p = None \<longrightarrow>
        (ensureCompatible sv rng [bound] = Inr ()) = compatible sv rng (version p) bound) \<and>
   (\<forall>p b. parseRange sv rng = Inr p \<and> prerelease p = None \<and> bound = Some b \<and>
        \<not> compatible sv rng (version p) bound \<and>
        (semver_satisfies sv (version p) b \<longrightarrow> semver_intersects sv rng b \<noteq> None) \<longrightarrow>
        ensureCompatible sv rng [bound] =
          Inl (Error (''Range '' @ rng @ '' is not compatible with '' @ b)))"
proof (intro conjI allI impI)
  fix p
  assume "parseRange sv rng = Inr p \<and> compatible sv rng (version p) bound"
  then show "ensureCompatible sv rng [bound] = Inr ()"
    by (auto simp: ensureCompatible_single checkBound_def compatible_def and_then_def lift_def
        split: option.splits)
next
  fix p
  assume "parseRange sv rng = Inr p \<and> prerelease p = None"
  then show "(ensureCompatible sv rng [bound] = Inr ()) = compatible sv rng (version p) bound"
    by (auto simp: ensureCompatible_single checkBound_def compatible_def and_then_def lift_def
        split: option.splits)
next
  fix p b
  assume "parseRange sv rng = Inr p \<and> prerelease p = None \<and> bound = Some b \<and>
        \<not> compatible sv rng (version p) bound \<and>
        (semver_satisfies sv (version p) b \<longrightarrow> semver_intersects sv rng b \<noteq> None)"
  then show "ensureCompatible sv rng [bound] =
          Inl (Error (''Range '' @ rng @ '' is not compatible with '' @ b))"
    by (auto simp: ensureCompatible_single checkBound_def compatible_def and_then_def lift_def
        incompatible_def split: option.splits)
qed

theorem ensureCompatible_general_witness:
  "parseRange ref_semver ''>=2.0.0'' =
     Inr \<lparr>condition = ''>='', prerelease = None, version = ''2.0.0''\<rparr> \<and>
   compatible ref_semver ''>=2.0.0'' ''2.0.0'' (Some ''<5.0.0'') \<and>
   ensureCompatible ref_semver ''>=2.0.0'' [Some ''<5.0.0''] = Inr () \<and>
   parseRange ref_semver ''>=3.0.0'' =
     Inr \<lparr>condition = ''>='', prerelease = None, version = ''3.0.0''\<rparr> \<and>
   \<not> compatible ref_semver ''>=3.0.0'' ''3.0.0'' (Some ''<2.0.0'') \<and>
   \<not> semver_satisfies ref_semver ''3.0.0'' ''<2.0.0'' \<and>
   ensureCompatible ref_semver ''>=3.0.0'' [Some ''<2.0.0''] =
     Inl (Error ''Range >=3.0.0 is not compatible with <2.0.0'')"
proof -
  have a: "parseRange ref_semver ''>=2.0.0'' =
     Inr \<lparr>condition = ''>='', prerelease = None, version = ''2.0.0''\<rparr>" by code_simp
  have b: "compatible ref_semver ''>=2.0.0'' ''2.0.0'' (Some ''<5.0.0'')" by code_simp
  have 1: "ensureCompatible ref_semver ''>=2.0.0'' [Some ''<5.0.0''] = Inr ()"
    using ensureCompatible_general [of ref_semver "''>=2.0.0''" "Some ''<5.0.0''"] a b by fastforce
  have c: "parseRange ref_semver ''>=3.0.0'' =
     Inr \<lparr>condition = ''>='', prerelease = None, version = ''3.0.0''\<rparr>" by code_simp
  have d: "\<not> compatible ref_semver ''>=3.0.0'' ''3.0.0'' (Some ''<2.0.0'')" by code_simp
  have e: "\<not> semver_satisfies ref_semver ''3.0.0'' ''<2.0.0''" by code_simp
  have 2: "ensureCompatible ref_semver ''>=3.0.0'' [Some ''<2.0.0''] =
     Inl (Error (''Range '' @ ''>=3.0.0'' @ '' is not compatible with '' @ ''<2.0.0''))"
    using ensureCompatible_general [of ref_semver "''>=3.0.0''" "Some ''<2.0.0''"] c d e by fastforce
  show ?thesis using a b 1 c d e 2 by simp
qed

theorem ensureCompatible_iff_counterexample:
  "parseRange ref_semver ''>=1.0.0-a'' =
     Inr \<lparr>condition = ''>='', prerelease = Some [Str ''a''], version = ''1.0.0-a''\<rparr> \<and>
   ensureCompatible ref_semver ''>=1.0.0-a'' [Some ''<2.0.0''] = Inr () \<and>
   \<not> compatible ref_semver ''>=1.0.0-a'' ''1.0.0-a'' (Some ''<2.0.0'')"
  by code_simp

text \<open>
  Claim C4. For a clause with a prerelease tag whose version does not satisfy the opposing
  bound: it is accepted when the bound's version has a prerelease tag and satisfies the
  clause, or when the bound's version has none and the clause's version satisfies the
  clause and the bound together; otherwise the same error is raised.
\<close>

theorem ensureCompatible_prerelease:
  assumes "parseRange sv rng = Inr p" and "prerelease p \<noteq> None"
    and "b \<noteq> []" and "\<not> semver_satisfies sv (version p) b"
    and "parseRange sv b = Inr pb"
  shows "ensureCompatible sv rng [Some b] =
     (if (prerelease pb \<noteq> None \<and> semver_satisfies sv (version pb) rng) \<or>
         (prerelease pb = None \<and> semver_satisfies sv (version p) (rng @ '' '' @ b))
      then Inr ()
      else Inl (Error (''Range '' @ rng @ '' is not compatible with '' @ b)))"
  using assms
  by (auto simp: ensureCompatible_single checkBound_def and_then_def incompatible_def
      split: option.splits)

theorem ensureCompatible_prerelease_witness:
  "parseRange ref_semver ''>=1.0.0-a'' =
     Inr \<lparr>condition = ''>='', prerelease = Some [Str ''a''], version = ''1.0.0-a''\<rparr> \<and>
   \<not> semver_satisfies ref_semver ''1.0.0-a'' ''<2.0.0'' \<and>
   parseRange ref_semver ''<2.0.0'' =
     Inr \<lparr>condition = ''<'', prerelease = None, version = ''2.0.0''\<rparr> \<and>
   semver_satisfies ref_semver ''1.0.0-a'' ''>=1.0.0-a <2.0.0'' \<and>
   ensureCompatible ref_semver ''>=1.0.0-a'' [Some ''<2.0.0''] = Inr () \<and>
   parseRange ref_semver ''>=1.9.1-alpha'' =
     Inr \<lparr>condition = ''>='', prerelease = Some [Str ''alpha''], version = ''1.9.1-alpha''\<rparr> \<and>
   \<not> semver_satisfies ref_semver ''1.9.1-alpha'' ''>=1.9.0-alpha'' \<and>
   parseRange ref_semver ''>=1.9.0-alpha'' =
     Inr \<lparr>condition = ''>='', prerelease = Some [Str ''alpha''], version = ''1.9.0-alpha''\<rparr> \<and>
   \<not> semver_satisfies ref_semver ''1.9.0-alpha'' ''>=1.9.1-alpha'' \<and>
   ensureCompatible ref_semver ''>=1.9.1-alpha'' [Some ''>=1.9.0-alpha''] =
     Inl (Error ''Range >=1.9.1-alpha is not compatible with >=1.9.0-alpha'')"
proof -
  have a: "parseRange ref_semver ''>=1.0.0-a'' =
     Inr \<lparr>condition = ''>='', prerelease = Some [Str ''a''], version = ''1.0.0-a''\<rparr>" by code_simp
  have b: "\<not> semver_satisfies ref_semver ''1.0.0-a'' ''<2.0.0''" by code_simp
  have c: "parseRange ref_semver ''<2.0.0'' =
     Inr \<lparr>condition = ''<'', prerelease = None, version = ''2.0.0''\<rparr>" by code_simp
  have d: "semver_satisfies ref_semver ''1.0.0-a'' ''>=1.0.0-a <2.0.0''" by code_simp
  have 1: "ensureCompatible ref_semver ''>=1.0.0-a'' [Some ''<2.0.0''] = Inr ()"
    using ensureCompatible_prerelease [OF a _ _ _ c] b d by simp
  have a2: "parseRange ref_semver ''>=1.9.1-alpha'' =
     Inr \<lparr>condition = ''>='', prerelease = Some [Str ''alpha''], version = ''1.9.1-alpha''\<rparr>"
    by code_simp
  have b2: "\<not> semver_satisfies ref_semver ''1.9.1-alpha'' ''>=1.9.0-alpha''" by code_simp
  have c2: "parseRange ref_semver ''>=1.9.0-alpha'' =
     Inr \<lparr>condition = ''>='', prerelease = Some [Str ''alpha''], version = ''1.9.0-alpha''\<rparr>"
    by code_simp
  have d2: "\<not> semver_satisfies ref_semver ''1.9.0-alpha'' ''>=1.9.1-alpha''" by code_simp
  have 2: "ensureCompatible ref_semver ''>=1.9.1-alpha'' [Some ''>=1.9.0-alpha''] =
     Inl (Error ''Range >=1.9.1-alpha is not compatible with >=1.9.0-alpha'')"
    using ensureCompatible_prerelease [OF a2 _ _ _ c2] b2 d2 by simp
  show ?thesis using a b c d 1 a2 b2 c2 d2 2 by simp
qed

subsection \<open>expandRanges\<close>

lemma distinct_from_set: "set (distinct_from seen xs) = set xs - set seen"
  by (induction xs arbitrary: seen) auto

lemma distinct_from_distinct: "distinct (distinct_from seen xs)"
  by (induction xs arbitrary: seen) (auto simp: distinct_from_set)

lemma distinct_arr_distinct: "distinct (distinct_arr xs)"
  by (simp add: distinct_arr_def distinct_from_distinct)

lemma distinct_arr_set: "set (distinct_arr xs) = set xs"
  by (simp add: distinct_arr_def distinct_from_set)

lemma x_match_wildcard: "isWildcard c \<Longrightarrow> x_match c"
  by (auto simp: isWildcard_def x_match_def)

lemma coerceRange_wildcard: "isWildcard c \<Longrightarrow> coerceRange c = ''>=0.0.0''"
  by (simp add: coerceRange_def x_match_wildcard)

lemma coerceRange_no_match: "\<not> x_match (coerceRange c)"
  by (simp add: coerceRange_def x_match_def)

lemma expandPart_clean:
  "distinct (expandPart part) \<and> (\<forall>c\<in>set (expandPart part). \<not> x_match c \<and> \<not> isWildcard c)"
  using coerceRange_no_match x_match_wildcard
  by (auto simp: expandPart_def distinct_arr_distinct distinct_arr_set)

lemma mapResult_Inr:
  "mapResult f xs = Inr ys \<Longrightarrow> length ys = length xs \<and> (\<forall>i<length xs. f (xs ! i) = Inr (ys ! i))"
proof (induction xs arbitrary: ys)
  case Nil
  then show ?case by simp
next
  case (Cons x xs)
  from Cons.prems obtain y ys' where
    y: "f x = Inr y" and r: "mapResult f xs = Inr ys'" and e: "ys = y # ys'"
    by (auto simp: and_then_def split: sum.splits)
  have "length ys' = length xs \<and> (\<forall>i<length xs. f (xs ! i) = Inr (ys' ! i))"
    using Cons.IH r by blast
  then show ?case using y e by (auto simp: nth_Cons split: nat.splits)
qed

lemma expandRange_Inr:
  "expandRange sv rng = Inr dnf \<Longrightarrow>
     \<exists>validRange. semver_validRange sv rng = Some validRange \<and>
       dnf = map expandPart (split_or [] validRange)"
  by (auto simp: expandRange_def split: option.splits)

lemma split_or_nonempty: "split_or cur s \<noteq> []"
  by (induction cur s rule: split_or.induct) auto

lemma join_Cons: "xs \<noteq> [] \<Longrightarrow> join sep (x # xs) = x @ sep @ join sep xs"
  by (cases xs) auto

lemma split_or_join: "join ''||'' (split_or cur s) = rev cur @ s"
proof (induction cur s rule: split_or.induct)
  case (1 cur)
  then show ?case by simp
next
  case (2 cur c)
  then show ?case by simp
next
  case (3 cur c d s)
  show ?case
  proof (cases "c = CHR ''|'' \<and> d = CHR ''|''")
    case True
    then show ?thesis using "3.IH"(1) by (simp add: join_Cons split_or_nonempty)
  next
    case False
    then show ?thesis using "3.IH"(2) by auto
  qed
qed

lemma split_ws_nonempty: "split_ws cur s \<noteq> []"
  by (induction cur s rule: split_ws.induct) auto

lemma split_ws_no_space:
  "list_all (\<lambda>c. \<not> isSpace c) cur \<Longrightarrow> list_all (list_all (\<lambda>c. \<not> isSpace c)) (split_ws cur s)"
proof (induction cur s rule: split_ws.induct)
  case (1 cur)
  then show ?case by simp
next
  case (2 cur c s)
  show ?case
  proof (cases "isSpace c")
    case True
    have "list_all (list_all (\<lambda>c. \<not> isSpace c)) (split_ws [] (dropWhile isSpace s))"
      using "2.IH"(1) [OF True] by simp
    then show ?thesis using True "2.prems" by simp
  next
    case False
    have "list_all (list_all (\<lambda>c. \<not> isSpace c)) (split_ws (c # cur) s)"
      using "2.IH"(2) [OF False] False "2.prems" by simp
    then show ?thesis using False by simp
  qed
qed

lemma expandRanges_Inr:
  assumes "expandRanges sv ranges = Inr dnfs"
  shows "length dnfs = length ranges"
    and "\<forall>i<length ranges. \<exists>validRange.
          semver_validRange sv (ranges ! i) = Some validRange \<and>
          dnfs ! i = map expandPart (split_or [] validRange)"
    and "\<forall>dnf\<in>set dnfs. dnf \<noteq> [] \<and> (\<forall>conj\<in>set dnf.
          distinct conj \<and> (\<forall>c\<in>set conj. \<not> isWildcard c))"
proof -
  have m: "length dnfs = length ranges \<and>
      (\<forall>i<length ranges. expandRange sv (ranges ! i) = Inr (dnfs ! i))"
    using assms unfolding expandRanges_def by (rule mapResult_Inr)
  then show "length dnfs = length ranges" by simp
  show "\<forall>i<length ranges. \<exists>validRange.
          semver_validRange sv (ranges ! i) = Some validRange \<and>
          dnfs ! i = map expandPart (split_or [] validRange)"
    using m expandRange_Inr by blast
  show "\<forall>dnf\<in>set dnfs. dnf \<noteq> [] \<and> (\<forall>conj\<in>set dnf.
          distinct conj \<and> (\<forall>c\<in>set conj. \<not> isWildcard c))"
  proof
    fix dnf
    assume d: "dnf \<in> set dnfs"
    from d obtain i where i: "i < length dnfs" "dnfs ! i = dnf"
      by (auto simp: in_set_conv_nth)
    then have "expandRange sv (ranges ! i) = Inr dnf" using m by auto
    then obtain validRange where v: "dnf = map expandPart (split_or [] validRange)"
      using expandRange_Inr by blast
    then have "\<forall>conj\<in>set dnf. \<exists>part. conj = expandPart part" by auto
    then have "\<forall>conj\<in>set dnf. distinct conj \<and> (\<forall>c\<in>set conj. \<not> isWildcard c)"
      using expandPart_clean by metis
    then show "dnf \<noteq> [] \<and> (\<forall>conj\<in>set dnf.
          distinct conj \<and> (\<forall>c\<in>set conj. \<not> isWildcard c))"
      using v split_or_nonempty by simp
  qed
qed

text \<open>
  What \<open>expandRanges\<close> does ensure when it returns: one DNF for each argument, the
  normalised range split at \<^verbatim>\<open>||\<close>, each part split at whitespace, coerced and made
  distinct; no conjunction holds a comparator twice, and none holds one of the strings
  \<^verbatim>\<open>x\<close>, \<^verbatim>\<open>X\<close>, \<^verbatim>\<open>*\<close>, each of which is replaced by \<^verbatim>\<open>>=0.0.0\<close>.
\<close>

lemma expandRanges_coerced:
  "(\<forall>dnfs. expandRanges sv ranges = Inr dnfs \<longrightarrow>
      length dnfs = length ranges \<and>
      (\<forall>i<length ranges. \<exists>validRange.
          semver_validRange sv (ranges ! i) = Some validRange \<and>
          dnfs ! i = map expandPart (split_or [] validRange)) \<and>
      (\<forall>dnf\<in>set dnfs. \<forall>conj\<in>set dnf.
          distinct conj \<and> (\<forall>c\<in>set conj. \<not> isWildcard c))) \<and>
   (\<forall>part c. c \<in> set (split_ws [] part) \<and> isWildcard c \<longrightarrow>
      ''>=0.0.0'' \<in> set (expandPart part))"
proof -
  have 1: "\<forall>dnfs. expandRanges sv ranges = Inr dnfs \<longrightarrow>
      length dnfs = length ranges \<and>
      (\<forall>i<length ranges. \<exists>validRange.
          semver_validRange sv (ranges ! i) = Some validRange \<and>
          dnfs ! i = map expandPart (split_or [] validRange)) \<and>
      (\<forall>dnf\<in>set dnfs. \<forall>conj\<in>set dnf.
          distinct conj \<and> (\<forall>c\<in>set conj. \<not> isWildcard c))"
    using expandRanges_Inr by blast
  have 2: "\<forall>part c. c \<in> set (split_ws [] part) \<and> isWildcard c \<longrightarrow>
      ''>=0.0.0'' \<in> set (expandPart part)"
  proof (intro allI impI)
    fix part c
    assume h: "c \<in> set (split_ws [] part) \<and> isWildcard c"
    then have "coerceRange c = ''>=0.0.0''" using coerceRange_wildcard by blast
    moreover have "coerceRange c \<in> coerceRange ` set (split_ws [] part)" using h by blast
    ultimately have "''>=0.0.0'' \<in> set (map coerceRange (split_ws [] part))" by simp
    then show "''>=0.0.0'' \<in> set (expandPart part)"
      by (simp only: expandPart_def distinct_arr_set)
  qed
  show ?thesis using 1 2 by (rule conjI)
qed

lemma reduceUpdateBounds_empty_comparator:
  "reduceUpdateBounds sv bound ([] # rs) = Inl TypeError"
  by (simp add: updateBounds_def parseRange_def and_then_def)

text \<open>
  Claim C6 fails on the code. A wildcard that is one member of a union is normalised by
  the package to the empty comparator, which \<^verbatim>\<open>regex.x\<close> does not match: it is not
  coerced to \<^verbatim>\<open>>=0.0.0\<close>, it reaches \<open>updateBounds\<close>, where \<open>parseRange\<close> raises a
  TypeError whatever the package, and its branch is dropped. On the second argument of the example in the
  comment above \<open>expandRanges\<close>, the first conjunction is the empty comparator and not
  \<^verbatim>\<open>>=0.0.0\<close>, and \<open>intersect\<close> of that range alone returns \<^verbatim>\<open>~2.2.0\<close>.
\<close>

theorem expandRanges_wildcard_member:
  "semver_validRange ref_semver ''* || 2.2.*'' = Some ''||>=2.2.0 <2.3.0'' \<and>
   expandRanges ref_semver [''1.* || 3.*'', ''* || 2.2.*''] =
     Inr [[[''>=1.0.0'', ''<2.0.0''], [''>=3.0.0'', ''<4.0.0'']],
          [[[]], [''>=2.2.0'', ''<2.3.0'']]] \<and>
   \<not> x_match [] \<and> coerceRange [] = [] \<and>
   reduceUpdateBounds ref_semver emptyBounds [[]] = Inl TypeError \<and>
   intersect ref_semver [''* || 2.2.*''] = Inr ''~2.2.0''"
  by code_simp

subsection \<open>intersect\<close>

lemma tryPairs_Cons:
  "tryPairs sv err (pair # ps) =
     (case attempt sv pair of
        Inr b \<Rightarrow> (Some b # fst (tryPairs sv err ps), snd (tryPairs sv err ps))
      | Inl e \<Rightarrow>
          (None # fst (tryPairs sv (case err of None \<Rightarrow> Some e | Some e0 \<Rightarrow> Some e0) ps),
           snd (tryPairs sv (case err of None \<Rightarrow> Some e | Some e0 \<Rightarrow> Some e0) ps)))"
  by (cases pair) (simp add: attempt_def case_prod_beta split: sum.splits)

lemma tryPairs_results:
  "List.map_filter id (fst (tryPairs sv err ps)) = survivors (map (attempt sv) ps)"
proof (induction ps arbitrary: err)
  case Nil
  then show ?case by (simp add: List.map_filter_simps)
next
  case (Cons pair ps)
  show ?case
    using Cons.IH
    by (cases "attempt sv pair") (simp_all add: tryPairs_Cons List.map_filter_simps)
qed

lemma tryPairs_error:
  "snd (tryPairs sv err ps) =
     (case err of
        Some e \<Rightarrow> Some e
      | None \<Rightarrow> (case failures (map (attempt sv) ps) of [] \<Rightarrow> None | e # _ \<Rightarrow> Some e))"
proof (induction ps arbitrary: err)
  case Nil
  then show ?case by (simp split: option.splits)
next
  case (Cons pair ps)
  show ?case
    by (cases "attempt sv pair")
       (simp_all add: tryPairs_Cons Cons.IH split: option.splits list.splits)
qed

lemma intersectStep_outcomes:
  "intersectStep sv boundsUnion rangeUnion =
     (if survivors (outcomes sv boundsUnion rangeUnion) = []
      then Inl (firstFailure (outcomes sv boundsUnion rangeUnion))
      else Inr (survivors (outcomes sv boundsUnion rangeUnion)))"
proof -
  let ?ps = "allPairs boundsUnion rangeUnion"
  obtain results err where t: "tryPairs sv None ?ps = (results, err)"
    by (cases "tryPairs sv None ?ps")
  have r: "List.map_filter id results = survivors (outcomes sv boundsUnion rangeUnion)"
    using tryPairs_results [of sv None ?ps] t by (simp add: outcomes_def)
  have e: "err = (case failures (outcomes sv boundsUnion rangeUnion) of [] \<Rightarrow> None | e # _ \<Rightarrow> Some e)"
    using tryPairs_error [of sv None ?ps] t by (simp add: outcomes_def)
  show ?thesis
    unfolding intersectStep_def t using r e
    by (simp add: firstFailure_def split: list.splits)
qed

lemma reduceUnions_fails:
  "reduceUnions sv boundsUnion dnfs = Inl e \<longleftrightarrow>
     (\<exists>before dnf after bs.
        dnfs = before @ dnf # after \<and> reduceUnions sv boundsUnion before = Inr bs \<and>
        survivors (outcomes sv bs dnf) = [] \<and> e = firstFailure (outcomes sv bs dnf))"
proof (induction dnfs arbitrary: boundsUnion)
  case Nil
  then show ?case by simp
next
  case (Cons d rest)
  show ?case
  proof (cases "survivors (outcomes sv boundsUnion d) = []")
    case True
    then have l: "reduceUnions sv boundsUnion (d # rest) = Inl (firstFailure (outcomes sv boundsUnion d))"
      by (simp add: intersectStep_outcomes and_then_def)
    show ?thesis
    proof
      assume "reduceUnions sv boundsUnion (d # rest) = Inl e"
      then have "e = firstFailure (outcomes sv boundsUnion d)" using l by simp
      then have "d # rest = [] @ d # rest \<and> reduceUnions sv boundsUnion [] = Inr boundsUnion \<and>
        survivors (outcomes sv boundsUnion d) = [] \<and> e = firstFailure (outcomes sv boundsUnion d)"
        using True by simp
      then show "\<exists>before dnf after bs.
        d # rest = before @ dnf # after \<and> reduceUnions sv boundsUnion before = Inr bs \<and>
        survivors (outcomes sv bs dnf) = [] \<and> e = firstFailure (outcomes sv bs dnf)"
        by blast
    next
      assume "\<exists>before dnf after bs.
        d # rest = before @ dnf # after \<and> reduceUnions sv boundsUnion before = Inr bs \<and>
        survivors (outcomes sv bs dnf) = [] \<and> e = firstFailure (outcomes sv bs dnf)"
      then obtain before dnf after bs where
        h: "d # rest = before @ dnf # after" "reduceUnions sv boundsUnion before = Inr bs"
           "survivors (outcomes sv bs dnf) = []" "e = firstFailure (outcomes sv bs dnf)"
        by blast
      have "before = []"
      proof (cases before)
        case Nil
        then show ?thesis .
      next
        case (Cons x xs)
        then have "x = d" using h(1) by simp
        then have "reduceUnions sv boundsUnion before = Inl (firstFailure (outcomes sv boundsUnion d))"
          using Cons True by (simp add: intersectStep_outcomes and_then_def)
        then show ?thesis using h(2) by simp
      qed
      then have "dnf = d" "bs = boundsUnion" using h(1,2) by simp_all
      then show "reduceUnions sv boundsUnion (d # rest) = Inl e" using l h(4) by simp
    qed
  next
    case False
    let ?bs1 = "survivors (outcomes sv boundsUnion d)"
    have s: "\<And>xs. reduceUnions sv boundsUnion (d # xs) = reduceUnions sv ?bs1 xs"
      using False by (simp add: intersectStep_outcomes and_then_def)
    show ?thesis
    proof
      assume "reduceUnions sv boundsUnion (d # rest) = Inl e"
      then have "reduceUnions sv ?bs1 rest = Inl e" using s by simp
      then obtain before dnf after bs where
        h: "rest = before @ dnf # after" "reduceUnions sv ?bs1 before = Inr bs"
           "survivors (outcomes sv bs dnf) = []" "e = firstFailure (outcomes sv bs dnf)"
        using Cons.IH by blast
      have "d # rest = (d # before) @ dnf # after \<and> reduceUnions sv boundsUnion (d # before) = Inr bs \<and>
        survivors (outcomes sv bs dnf) = [] \<and> e = firstFailure (outcomes sv bs dnf)"
        using h s by simp
      then show "\<exists>before dnf after bs.
        d # rest = before @ dnf # after \<and> reduceUnions sv boundsUnion before = Inr bs \<and>
        survivors (outcomes sv bs dnf) = [] \<and> e = firstFailure (outcomes sv bs dnf)"
        by blast
    next
      assume "\<exists>before dnf after bs.
        d # rest = before @ dnf # after \<and> reduceUnions sv boundsUnion before = Inr bs \<and>
        survivors (outcomes sv bs dnf) = [] \<and> e = firstFailure (outcomes sv bs dnf)"
      then obtain before dnf after bs where
        h: "d # rest = before @ dnf # after" "reduceUnions sv boundsUnion before = Inr bs"
           "survivors (outcomes sv bs dnf) = []" "e = firstFailure (outcomes sv bs dnf)"
        by blast
      have "before \<noteq> []"
      proof
        assume "before = []"
        then have "dnf = d" "bs = boundsUnion" using h(1,2) by simp_all
        then show False using h(3) False by simp
      qed
      then obtain xs where b: "before = d # xs" using h(1) by (cases before) auto
      then have "rest = xs @ dnf # after" "reduceUnions sv ?bs1 xs = Inr bs"
        using h(1,2) s by simp_all
      then have "reduceUnions sv ?bs1 rest = Inl e" using Cons.IH h(3,4) by blast
      then show "reduceUnions sv boundsUnion (d # rest) = Inl e" using s by simp
    qed
  qed
qed

lemma allPairs_nonempty: "xs \<noteq> [] \<Longrightarrow> ys \<noteq> [] \<Longrightarrow> allPairs xs ys \<noteq> []"
  by (cases xs) auto

lemma outcomes_nonempty: "bs \<noteq> [] \<Longrightarrow> dnf \<noteq> [] \<Longrightarrow> outcomes sv bs dnf \<noteq> []"
  by (simp add: outcomes_def allPairs_nonempty)

lemma no_survivors:
  "survivors rs = [] \<Longrightarrow> rs \<noteq> [] \<Longrightarrow> failures rs \<noteq> [] \<and> firstFailure rs = hd (failures rs)
     \<and> hd rs = Inl (hd (failures rs))"
  by (cases rs rule: survivors.cases) (auto simp: firstFailure_def)

lemma reduceUnions_nonempty:
  "reduceUnions sv boundsUnion dnfs = Inr bs \<Longrightarrow> boundsUnion \<noteq> [] \<Longrightarrow> bs \<noteq> []"
proof (induction dnfs arbitrary: boundsUnion)
  case Nil
  then show ?case by simp
next
  case (Cons d rest)
  show ?case
  proof (cases "survivors (outcomes sv boundsUnion d) = []")
    case True
    then show ?thesis using Cons.prems(1) by (simp add: intersectStep_outcomes and_then_def)
  next
    case False
    then have "reduceUnions sv (survivors (outcomes sv boundsUnion d)) rest = Inr bs"
      using Cons.prems(1) by (simp add: intersectStep_outcomes and_then_def)
    then show ?thesis using Cons.IH False by blast
  qed
qed

text \<open>
  Claim C1. One step of the reduce keeps the outcomes of the pairs that succeed, in
  order, and raises only when none succeeds. \<open>intersect\<close> seeds the reduce with the single
  empty bound pair; the reduce raises exactly when, at some DNF, no pair survives, and the
  error is then the first one raised by a pair of that DNF.
\<close>

theorem intersect_branches:
  "(\<forall>boundsUnion rangeUnion.
      intersectStep sv boundsUnion rangeUnion =
        (if survivors (outcomes sv boundsUnion rangeUnion) = []
         then Inl (firstFailure (outcomes sv boundsUnion rangeUnion))
         else Inr (survivors (outcomes sv boundsUnion rangeUnion)))) \<and>
   (\<forall>dnfs. expandRanges sv ranges = Inr dnfs \<longrightarrow>
      intersect sv ranges = and_then (reduceUnions sv [emptyBounds] dnfs) (formatUnion sv) \<and>
      (\<forall>e. reduceUnions sv [emptyBounds] dnfs = Inl e \<longleftrightarrow>
         (\<exists>before dnf after bs.
            dnfs = before @ dnf # after \<and> reduceUnions sv [emptyBounds] before = Inr bs \<and>
            survivors (outcomes sv bs dnf) = [] \<and> failures (outcomes sv bs dnf) \<noteq> [] \<and>
            e = hd (failures (outcomes sv bs dnf)))))"
proof -
  have 1: "\<forall>boundsUnion rangeUnion.
      intersectStep sv boundsUnion rangeUnion =
        (if survivors (outcomes sv boundsUnion rangeUnion) = []
         then Inl (firstFailure (outcomes sv boundsUnion rangeUnion))
         else Inr (survivors (outcomes sv boundsUnion rangeUnion)))"
    using intersectStep_outcomes by blast
  have 2: "\<forall>dnfs. expandRanges sv ranges = Inr dnfs \<longrightarrow>
      intersect sv ranges = and_then (reduceUnions sv [emptyBounds] dnfs) (formatUnion sv) \<and>
      (\<forall>e. reduceUnions sv [emptyBounds] dnfs = Inl e \<longleftrightarrow>
         (\<exists>before dnf after bs.
            dnfs = before @ dnf # after \<and> reduceUnions sv [emptyBounds] before = Inr bs \<and>
            survivors (outcomes sv bs dnf) = [] \<and> failures (outcomes sv bs dnf) \<noteq> [] \<and>
            e = hd (failures (outcomes sv bs dnf))))"
  proof (intro allI impI conjI)
    fix dnfs
    assume h: "expandRanges sv ranges = Inr dnfs"
    then show "intersect sv ranges = and_then (reduceUnions sv [emptyBounds] dnfs) (formatUnion sv)"
      by (simp add: intersect_def and_then_def)
    have ne: "\<forall>dnf\<in>set dnfs. dnf \<noteq> []" using expandRanges_Inr(3) [OF h] by blast
    fix e
    show "reduceUnions sv [emptyBounds] dnfs = Inl e \<longleftrightarrow>
         (\<exists>before dnf after bs.
            dnfs = before @ dnf # after \<and> reduceUnions sv [emptyBounds] before = Inr bs \<and>
            survivors (outcomes sv bs dnf) = [] \<and> failures (outcomes sv bs dnf) \<noteq> [] \<and>
            e = hd (failures (outcomes sv bs dnf)))"
    proof
      assume "reduceUnions sv [emptyBounds] dnfs = Inl e"
      then obtain before dnf after bs where
        f: "dnfs = before @ dnf # after" "reduceUnions sv [emptyBounds] before = Inr bs"
           "survivors (outcomes sv bs dnf) = []" "e = firstFailure (outcomes sv bs dnf)"
        using reduceUnions_fails by blast
      have "bs \<noteq> []" using reduceUnions_nonempty [OF f(2)] by simp
      moreover have "dnf \<noteq> []" using ne f(1) by simp
      ultimately have "outcomes sv bs dnf \<noteq> []" by (rule outcomes_nonempty)
      then have "failures (outcomes sv bs dnf) \<noteq> [] \<and> e = hd (failures (outcomes sv bs dnf))"
        using no_survivors f(3,4) by blast
      then show "\<exists>before dnf after bs.
            dnfs = before @ dnf # after \<and> reduceUnions sv [emptyBounds] before = Inr bs \<and>
            survivors (outcomes sv bs dnf) = [] \<and> failures (outcomes sv bs dnf) \<noteq> [] \<and>
            e = hd (failures (outcomes sv bs dnf))"
        using f by blast
    next
      assume "\<exists>before dnf after bs.
            dnfs = before @ dnf # after \<and> reduceUnions sv [emptyBounds] before = Inr bs \<and>
            survivors (outcomes sv bs dnf) = [] \<and> failures (outcomes sv bs dnf) \<noteq> [] \<and>
            e = hd (failures (outcomes sv bs dnf))"
      then obtain before dnf after bs where
        f: "dnfs = before @ dnf # after" "reduceUnions sv [emptyBounds] before = Inr bs"
           "survivors (outcomes sv bs dnf) = []" "failures (outcomes sv bs dnf) \<noteq> []"
           "e = hd (failures (outcomes sv bs dnf))"
        by blast
      have "e = firstFailure (outcomes sv bs dnf)"
        using f(4,5) by (cases "failures (outcomes sv bs dnf)") (simp_all add: firstFailure_def)
      then show "reduceUnions sv [emptyBounds] dnfs = Inl e"
        using reduceUnions_fails f(1,2,3) by blast
    qed
  qed
  show ?thesis using 1 2 by (rule conjI)
qed

theorem intersect_branches_witness:
  "intersectStep ref_semver [\<lparr>lowerBound = Some ''>=4.3.0'', upperBound = Some ''<4.4.0''\<rparr>]
     [[''>=4.1.2'', ''<5.0.0''], [''>=5.2.3'', ''<6.0.0'']] =
     Inr [\<lparr>lowerBound = Some ''>=4.3.0'', upperBound = Some ''<4.4.0''\<rparr>] \<and>
   expandRanges ref_semver [''^1.0.0 || ^3.0.0'', ''^2.0.0''] =
     Inr [[[''>=1.0.0'', ''<2.0.0''], [''>=3.0.0'', ''<4.0.0'']], [[''>=2.0.0'', ''<3.0.0'']]] \<and>
   reduceUnions ref_semver [emptyBounds] [[[''>=1.0.0'', ''<2.0.0''], [''>=3.0.0'', ''<4.0.0'']]] =
     Inr [\<lparr>lowerBound = Some ''>=1.0.0'', upperBound = Some ''<2.0.0''\<rparr>,
          \<lparr>lowerBound = Some ''>=3.0.0'', upperBound = Some ''<4.0.0''\<rparr>] \<and>
   outcomes ref_semver
     [\<lparr>lowerBound = Some ''>=1.0.0'', upperBound = Some ''<2.0.0''\<rparr>,
      \<lparr>lowerBound = Some ''>=3.0.0'', upperBound = Some ''<4.0.0''\<rparr>]
     [[''>=2.0.0'', ''<3.0.0'']] =
     [Inl (Error ''Range >=2.0.0 is not compatible with <2.0.0''),
      Inl (Error ''Range <3.0.0 is not compatible with >=3.0.0'')] \<and>
   intersect ref_semver [''^1.0.0 || ^3.0.0'', ''^2.0.0''] =
     Inl (Error ''Range >=2.0.0 is not compatible with <2.0.0'')"
proof -
  let ?b = "\<lparr>lowerBound = Some ''>=4.3.0'', upperBound = Some ''<4.4.0''\<rparr>"
  let ?u = "[[''>=4.1.2'', ''<5.0.0''], [''>=5.2.3'', ''<6.0.0'']]"
  have o: "outcomes ref_semver [?b] ?u =
      [Inr ?b, Inl (Error ''Range >=5.2.3 is not compatible with <4.4.0'')]"
    by code_simp
  have 1: "intersectStep ref_semver [?b] ?u = Inr [?b]"
    using intersect_branches [of ref_semver "[]"] o by simp
  let ?d1 = "[[''>=1.0.0'', ''<2.0.0''], [''>=3.0.0'', ''<4.0.0'']]"
  let ?d2 = "[[''>=2.0.0'', ''<3.0.0'']]"
  let ?bs = "[\<lparr>lowerBound = Some ''>=1.0.0'', upperBound = Some ''<2.0.0''\<rparr>,
          \<lparr>lowerBound = Some ''>=3.0.0'', upperBound = Some ''<4.0.0''\<rparr>]"
  let ?ranges = "[''^1.0.0 || ^3.0.0'', ''^2.0.0'']"
  let ?e = "Error ''Range >=2.0.0 is not compatible with <2.0.0''"
  have a: "expandRanges ref_semver ?ranges = Inr [?d1, ?d2]" by code_simp
  have b: "reduceUnions ref_semver [emptyBounds] [?d1] = Inr ?bs" by code_simp
  have c: "outcomes ref_semver ?bs ?d2 =
     [Inl ?e, Inl (Error ''Range <3.0.0 is not compatible with >=3.0.0'')]"
    by code_simp
  have d: "[?d1, ?d2] = [?d1] @ ?d2 # [] \<and> reduceUnions ref_semver [emptyBounds] [?d1] = Inr ?bs \<and>
      survivors (outcomes ref_semver ?bs ?d2) = [] \<and> failures (outcomes ref_semver ?bs ?d2) \<noteq> [] \<and>
      ?e = hd (failures (outcomes ref_semver ?bs ?d2))"
    using b c by simp
  have t: "intersect ref_semver ?ranges =
        and_then (reduceUnions ref_semver [emptyBounds] [?d1, ?d2]) (formatUnion ref_semver) \<and>
      (\<forall>e. reduceUnions ref_semver [emptyBounds] [?d1, ?d2] = Inl e \<longleftrightarrow>
         (\<exists>before dnf after bs.
            [?d1, ?d2] = before @ dnf # after \<and> reduceUnions ref_semver [emptyBounds] before = Inr bs \<and>
            survivors (outcomes ref_semver bs dnf) = [] \<and> failures (outcomes ref_semver bs dnf) \<noteq> [] \<and>
            e = hd (failures (outcomes ref_semver bs dnf))))"
    using intersect_branches [of ref_semver ?ranges] a by blast
  have "reduceUnions ref_semver [emptyBounds] [?d1, ?d2] = Inl ?e"
    using t d by blast
  then have 2: "intersect ref_semver ?ranges = Inl ?e"
    using t by (simp add: and_then_def)
  show ?thesis using 1 a b c 2 by simp
qed

text \<open>
  Claim C10. Without arguments \<open>intersect\<close> raises nothing and returns the empty string:
  the union stays the single empty bound pair, which formats to \<^verbatim>\<open>''\<close>.
\<close>

theorem intersect_no_arguments: "intersect sv [] = Inr []"
  by (simp add: intersect_def expandRanges_def formatUnion_def and_then_def
      formatIntersection_def emptyBounds_def createShorthand_def minMax_def)

theorem intersect_no_arguments_witness:
  "reduceUnions ref_semver [emptyBounds] [] = Inr [emptyBounds] \<and>
   formatIntersection emptyBounds = [] \<and> intersect ref_semver [] = Inr []"
  using intersect_no_arguments [of ref_semver]
  by (simp add: formatIntersection_def emptyBounds_def)

subsection \<open>The order of the arguments\<close>

lemma parseRange_canonical:
  "canonical r \<Longrightarrow>
     parseRange sv r = Inr \<lparr>condition = condOf r, prerelease = semver_prerelease sv (versionOf r),
                            version = versionOf r\<rparr>"
  by (auto simp: canonical_def parseRange_def condOf_def versionOf_def Let_def split: option.splits)

lemma canonical_nonempty: "canonical r \<Longrightarrow> r \<noteq> []"
  by (auto simp: canonical_def)

lemma canonical_side:
  "canonical r \<Longrightarrow>
     (upperClause r \<longrightarrow> condOf r \<in> {''<'', ''<=''}) \<and>
     (\<not> upperClause r \<longrightarrow> condOf r \<in> {''>'', ''>=''} \<and> startsWith (condOf r) ''>'') \<and>
     condOf r \<noteq> ''=''"
  by (auto simp: canonical_def upperClause_def startsWith_def)

lemma below_trans: "below upper rank a b \<Longrightarrow> below upper rank b c \<Longrightarrow> below upper rank a c"
  by (auto simp: below_def tighter_def split: if_splits)

lemma below_antisym:
  assumes "below upper rank a b" and "below upper rank b a"
    and "canonical a" and "canonical b" and "upperClause a = upperClause b"
    and "rank (versionOf a) = rank (versionOf b) \<longrightarrow> versionOf a = versionOf b"
  shows "a = b"
proof -
  have r: "rank (versionOf a) = rank (versionOf b)"
    and s: "isStrict (condOf a) = isStrict (condOf b)"
    using assms(1,2) by (auto simp: below_def tighter_def split: if_splits)
  have v: "versionOf a = versionOf b" using r assms(6) by simp
  have "condOf a = condOf b"
    using canonical_side [OF assms(3)] canonical_side [OF assms(4)] assms(5) s
    by (cases "upperClause a") (auto simp: isStrict_def)
  then show ?thesis using v assms(3,4) by (metis canonical_def)
qed

lemma mergeBounds_ranked:
  assumes "canonical r" and "canonical m" and "upperClause r = upper"
    and "ranked sv rank (versionOf r) (versionOf m)"
  shows "mergeBounds sv r (Some m) =
     Inr (if tighter upper (rank (versionOf r)) (rank (versionOf m)) \<or>
             (isStrict (condOf r) \<and> rank (versionOf r) = rank (versionOf m))
          then r else m)"
  using assms canonical_nonempty [OF assms(2)]
  by (auto simp: mergeBounds_def parseRange_canonical and_then_def lift_def ranked_def
      upperClause_def tighter_def isStrict_def Let_def)

lemma mergeBounds_below:
  assumes "canonical r" and "canonical m" and "upperClause r = upper"
    and "ranked sv rank (versionOf r) (versionOf m)"
  shows "\<exists>m'. mergeBounds sv r (Some m) = Inr m' \<and> (m' = r \<or> m' = m) \<and>
           below upper rank r m' \<and> below upper rank m m'"
  unfolding mergeBounds_ranked [OF assms]
  by (auto simp: below_def tighter_def split: if_splits)

lemma mergeAll_max:
  assumes "\<forall>r\<in>set (m # zs). canonical r \<and> upperClause r = upper"
    and "\<forall>r\<in>set (m # zs). \<forall>r'\<in>set (m # zs). ranked sv rank (versionOf r) (versionOf r')"
    and "mergeAll sv (Some m) zs = Inr res"
  shows "\<exists>best. res = Some best \<and> best \<in> set (m # zs) \<and>
           (\<forall>r\<in>set (m # zs). below upper rank r best)"
  using assms
proof (induction zs arbitrary: m)
  case Nil
  then show ?case by (auto simp: below_def)
next
  case (Cons z zs)
  have cz: "canonical z" "canonical m" "upperClause z = upper"
    and rk: "ranked sv rank (versionOf z) (versionOf m)"
    using Cons.prems(1,2) by auto
  from mergeBounds_below [OF cz rk] obtain m' where
    m': "mergeBounds sv z (Some m) = Inr m'" "m' = z \<or> m' = m"
        "below upper rank z m'" "below upper rank m m'"
    by blast
  have sub: "set (m' # zs) \<subseteq> set (m # z # zs)" using m'(2) by auto
  have 1: "\<forall>r\<in>set (m' # zs). canonical r \<and> upperClause r = upper"
    using Cons.prems(1) sub by blast
  have 2: "\<forall>r\<in>set (m' # zs). \<forall>r'\<in>set (m' # zs). ranked sv rank (versionOf r) (versionOf r')"
    using Cons.prems(2) sub by blast
  have 3: "mergeAll sv (Some m') zs = Inr res"
    using Cons.prems(3) m'(1) by (simp add: and_then_def)
  from Cons.IH [OF 1 2 3] obtain best where
    b: "res = Some best" "best \<in> set (m' # zs)" "\<forall>r\<in>set (m' # zs). below upper rank r best"
    by blast
  have "below upper rank m' best" using b(3) by simp
  then have "below upper rank z best" "below upper rank m best"
    using m'(3,4) below_trans by blast+
  then have "\<forall>r\<in>set (m # z # zs). below upper rank r best" using b(3) by simp
  moreover have "best \<in> set (m # z # zs)" using b(2) sub by blast
  ultimately show ?case using b(1) by blast
qed

lemma mergeAll_None:
  "mergeAll sv None (z # zs) = mergeAll sv (Some z) zs"
  by (simp add: mergeBounds_def and_then_def)

lemma mergeAll_order:
  assumes "\<forall>r\<in>set xs. canonical r \<and> upperClause r = upper"
    and "\<forall>r\<in>set xs. \<forall>r'\<in>set xs. ranked sv rank (versionOf r) (versionOf r')"
    and "set ys = set xs"
    and "mergeAll sv None xs = Inr a" and "mergeAll sv None ys = Inr b"
  shows "a = b"
proof (cases xs)
  case Nil
  then have "ys = []" using assms(3) by simp
  then show ?thesis using Nil assms(4,5) by simp
next
  case (Cons x xs')
  then obtain y ys' where ys: "ys = y # ys'" using assms(3) by (cases ys) auto
  have ax: "mergeAll sv (Some x) xs' = Inr a" using assms(4) Cons mergeAll_None by simp
  have by': "mergeAll sv (Some y) ys' = Inr b" using assms(5) ys mergeAll_None by simp
  have cx: "\<forall>r\<in>set (x # xs'). canonical r \<and> upperClause r = upper"
    and rx: "\<forall>r\<in>set (x # xs'). \<forall>r'\<in>set (x # xs'). ranked sv rank (versionOf r) (versionOf r')"
    using assms(1,2) Cons by simp_all
  have cy: "\<forall>r\<in>set (y # ys'). canonical r \<and> upperClause r = upper"
    and ry: "\<forall>r\<in>set (y # ys'). \<forall>r'\<in>set (y # ys'). ranked sv rank (versionOf r) (versionOf r')"
    using assms(1,2,3) ys by simp_all
  have sx: "set (x # xs') = set xs" using Cons by simp
  have sy: "set (y # ys') = set xs" using ys assms(3) by simp
  from mergeAll_max [OF cx rx ax] obtain p where
    p: "a = Some p" "p \<in> set xs" "\<forall>r\<in>set xs. below upper rank r p"
    unfolding sx by blast
  from mergeAll_max [OF cy ry by'] obtain q where
    q: "b = Some q" "q \<in> set xs" "\<forall>r\<in>set xs. below upper rank r q"
    unfolding sy by blast
  have "below upper rank p q" "below upper rank q p" using p q by blast+
  moreover have "canonical p" "canonical q" "upperClause p = upperClause q"
    using assms(1) p(2) q(2) by auto
  moreover have "rank (versionOf p) = rank (versionOf q) \<longrightarrow> versionOf p = versionOf q"
    using assms(2) p(2) q(2) by (auto simp: ranked_def)
  ultimately have "p = q" by (rule below_antisym)
  then show ?thesis using p(1) q(1) by simp
qed

lemma updateBounds_canonical:
  assumes "canonical r" and "updateBounds sv bp r = Inr bp'"
  shows "if upperClause r
         then (\<exists>u. mergeBounds sv r (upperBound bp) = Inr u \<and> bp' = bp\<lparr>upperBound := Some u\<rparr>)
         else (\<exists>l. mergeBounds sv r (lowerBound bp) = Inr l \<and> bp' = bp\<lparr>lowerBound := Some l\<rparr>)"
proof (cases "upperClause r")
  case True
  then have c: "startsWith (condOf r) ''<''" "\<not> startsWith (condOf r) ''>''" "condOf r \<noteq> ''=''"
    using canonical_side [OF assms(1)] by (auto simp: upperClause_def startsWith_def)
  show ?thesis
    using assms(2) True c
    by (auto simp: updateBounds_def parseRange_canonical [OF assms(1)] and_then_def
        split: sum.splits if_splits)
next
  case False
  then have c: "\<not> startsWith (condOf r) ''<''" "startsWith (condOf r) ''>''" "condOf r \<noteq> ''=''"
    using canonical_side [OF assms(1)] by (auto simp: upperClause_def)
  show ?thesis
    using assms(2) False c
    by (auto simp: updateBounds_def parseRange_canonical [OF assms(1)] and_then_def
        split: sum.splits if_splits)
qed

lemma reduceUpdateBounds_merges:
  assumes "reduceUpdateBounds sv bp rs = Inr bp'" and "\<forall>r\<in>set rs. canonical r"
  shows "mergeAll sv (lowerBound bp) (filter (\<lambda>r. \<not> upperClause r) rs) = Inr (lowerBound bp') \<and>
         mergeAll sv (upperBound bp) (filter upperClause rs) = Inr (upperBound bp')"
  using assms
proof (induction rs arbitrary: bp)
  case Nil
  then show ?case by simp
next
  case (Cons r rs)
  from Cons.prems(1) obtain bp1 where
    u: "updateBounds sv bp r = Inr bp1" and f: "reduceUpdateBounds sv bp1 rs = Inr bp'"
    by (auto simp: and_then_def split: sum.splits)
  have c: "canonical r" and cs: "\<forall>r\<in>set rs. canonical r" using Cons.prems(2) by simp_all
  have ih: "mergeAll sv (lowerBound bp1) (filter (\<lambda>r. \<not> upperClause r) rs) = Inr (lowerBound bp') \<and>
         mergeAll sv (upperBound bp1) (filter upperClause rs) = Inr (upperBound bp')"
    using Cons.IH [OF f cs] .
  show ?case
  proof (cases "upperClause r")
    case True
    then obtain x where x: "mergeBounds sv r (upperBound bp) = Inr x" "bp1 = bp\<lparr>upperBound := Some x\<rparr>"
      using updateBounds_canonical [OF c u] by auto
    then show ?thesis using ih True by (simp add: and_then_def)
  next
    case False
    then obtain x where x: "mergeBounds sv r (lowerBound bp) = Inr x" "bp1 = bp\<lparr>lowerBound := Some x\<rparr>"
      using updateBounds_canonical [OF c u] by auto
    then show ?thesis using ih False by (simp add: and_then_def)
  qed
qed

lemma reduceUpdateBounds_append:
  "reduceUpdateBounds sv bp (xs @ ys) =
     and_then (reduceUpdateBounds sv bp xs) (\<lambda>b. reduceUpdateBounds sv b ys)"
  by (induction xs arbitrary: bp) (auto simp: and_then_def split: sum.splits)

lemma intersectStep_single:
  "intersectStep sv [b] [c] =
     (case reduceUpdateBounds sv b c of Inl e \<Rightarrow> Inl e | Inr b' \<Rightarrow> Inr [b'])"
  by (cases "reduceUpdateBounds sv b c")
     (simp_all add: intersectStep_outcomes outcomes_def attempt_def firstFailure_def)

lemma reduceUnions_two:
  "reduceUnions sv [b] [[c], [d]] =
     (case reduceUpdateBounds sv b (c @ d) of Inl e \<Rightarrow> Inl e | Inr b' \<Rightarrow> Inr [b'])"
  by (auto simp: intersectStep_single reduceUpdateBounds_append and_then_def split: sum.splits)

lemma expandRanges_swap:
  "expandRanges sv [A, B] = Inr [a, b] \<Longrightarrow> expandRanges sv [B, A] = Inr [b, a]"
  by (auto simp: expandRanges_def and_then_def split: sum.splits)

lemma folded_order:
  assumes "\<forall>r\<in>set (xs @ ys). canonical r"
    and "\<forall>r\<in>set (xs @ ys). \<forall>r'\<in>set (xs @ ys). ranked sv rank (versionOf r) (versionOf r')"
    and "reduceUpdateBounds sv emptyBounds (xs @ ys) = Inr p"
    and "reduceUpdateBounds sv emptyBounds (ys @ xs) = Inr q"
  shows "p = q"
proof -
  have cq: "\<forall>r\<in>set (ys @ xs). canonical r" using assms(1) by auto
  note mp = reduceUpdateBounds_merges [OF assms(3) assms(1)]
  note mq = reduceUpdateBounds_merges [OF assms(4) cq]
  have e: "lowerBound emptyBounds = None" "upperBound emptyBounds = None"
    by (simp_all add: emptyBounds_def)
  let ?lo = "filter (\<lambda>r. \<not> upperClause r) (xs @ ys)"
  let ?up = "filter upperClause (xs @ ys)"
  have l: "lowerBound p = lowerBound q"
  proof (rule mergeAll_order [where xs = ?lo and upper = False and sv = sv and rank = rank])
    show "\<forall>r\<in>set ?lo. canonical r \<and> upperClause r = False" using assms(1) by auto
    show "\<forall>r\<in>set ?lo. \<forall>r'\<in>set ?lo. ranked sv rank (versionOf r) (versionOf r')"
      using assms(2) by auto
    show "set (filter (\<lambda>r. \<not> upperClause r) (ys @ xs)) = set ?lo" by auto
    show "mergeAll sv None ?lo = Inr (lowerBound p)" using mp e by simp
    show "mergeAll sv None (filter (\<lambda>r. \<not> upperClause r) (ys @ xs)) = Inr (lowerBound q)"
      using mq e by simp
  qed
  have u: "upperBound p = upperBound q"
  proof (rule mergeAll_order [where xs = ?up and upper = True and sv = sv and rank = rank])
    show "\<forall>r\<in>set ?up. canonical r \<and> upperClause r = True" using assms(1) by auto
    show "\<forall>r\<in>set ?up. \<forall>r'\<in>set ?up. ranked sv rank (versionOf r) (versionOf r')"
      using assms(2) by auto
    show "set (filter upperClause (ys @ xs)) = set ?up" by auto
    show "mergeAll sv None ?up = Inr (upperBound p)" using mp e by simp
    show "mergeAll sv None (filter upperClause (ys @ xs)) = Inr (upperBound q)"
      using mq e by simp
  qed
  show ?thesis using l u by (simp add: boundPair.equality)
qed

lemma isCond_digit: "isDigit c \<Longrightarrow> \<not> isCond c"
  by (auto simp: isDigit_def isCond_def)

lemma exactClause_facts:
  assumes "exactClause e"
  shows "isVersion e" and "e \<noteq> []" and "\<not> isCond (hd e)"
    and "condOf e = ''=''" and "versionOf e = e"
proof -
  show v: "isVersion e" using assms versionMatch_Some by (auto simp: exactClause_def)
  show n: "e \<noteq> []" and h: "\<not> isCond (hd e)"
    using isVersion_hd [OF v] isCond_digit by auto
  have "takeWhile isCond e = []" using n h by (cases e) auto
  then show "condOf e = ''=''" by (simp add: condOf_def conditionMatch_def)
  show "versionOf e = e" using assms by (simp add: versionOf_def exactClause_def)
qed

lemma parseRange_exact:
  "exactClause e \<Longrightarrow>
     parseRange sv e = Inr \<lparr>condition = ''='', prerelease = semver_prerelease sv e, version = e\<rparr>"
  using exactClause_facts(4) [of e]
  by (auto simp: parseRange_def exactClause_def condOf_def Let_def split: option.splits)

lemma isVersion_not_cond: "isCond c \<Longrightarrow> \<not> isVersion (c # s)"
  using isVersion_hd [of "c # s"] isCond_digit by auto

lemma pinned_bounds:
  assumes "exactClause e"
  shows "canonical (''>='' @ e)" and "condOf (''>='' @ e) = ''>=''" and "versionOf (''>='' @ e) = e"
    and "canonical (''<='' @ e)" and "condOf (''<='' @ e) = ''<=''" and "versionOf (''<='' @ e) = e"
    and "\<not> upperClause (''>='' @ e)" and "upperClause (''<='' @ e)"
proof -
  note f = exactClause_facts [OF assms]
  have c: "isCond CHR ''>''" "isCond CHR ''=''" "isCond CHR ''<''" by (simp_all add: isCond_def)
  have t: "takeWhile isCond e = []" using f(2,3) by (cases e) auto
  have vm: "versionMatch e = Some e" using assms by (simp add: exactClause_def)
  show 1: "versionOf (''>='' @ e) = e" and 2: "versionOf (''<='' @ e) = e"
    using vm isVersion_not_cond c by (simp_all add: versionOf_def)
  show 3: "condOf (''>='' @ e) = ''>=''" and 4: "condOf (''<='' @ e) = ''<=''"
    using t c by (simp_all add: condOf_def conditionMatch_def)
  have m: "versionMatch (''>='' @ e) = Some e" "versionMatch (''<='' @ e) = Some e"
    using vm isVersion_not_cond c by simp_all
  show "canonical (''>='' @ e)" using 1 3 m by (simp add: canonical_def)
  show "canonical (''<='' @ e)" using 2 4 m by (simp add: canonical_def)
  show "\<not> upperClause (''>='' @ e)" using 3 by (simp add: upperClause_def startsWith_def)
  show "upperClause (''<='' @ e)" using 4 by (simp add: upperClause_def startsWith_def)
qed

lemma parseRange_parts:
  "parseRange sv c = Inr p \<Longrightarrow> version p = versionOf c \<and> condition p = condOf c"
  by (auto simp: parseRange_def versionOf_def condOf_def Let_def split: option.splits)

lemma checkBound_cases:
  assumes "parseRange sv c = Inr p" and "canonical b"
    and "checkBound sv c p (Some b) = Inr ()" and "sound sv rank c b"
  shows "(within rank (versionOf c) b \<and>
           (upperClause c \<noteq> upperClause b \<longrightarrow> condOf c = ''='' \<or> within rank (versionOf b) c)) \<or>
         within rank (versionOf b) c \<or>
         (within rank (versionOf c) c \<and> within rank (versionOf c) b)"
proof -
  have v: "version p = versionOf c" using parseRange_parts [OF assms(1)] by simp
  have b: "b \<noteq> []" using assms(2) by (rule canonical_nonempty)
  note pb = parseRange_canonical [OF assms(2), of sv]
  show ?thesis
  proof (cases "semver_satisfies sv (versionOf c) b \<and> semver_intersects sv c b = Some True")
    case True
    then show ?thesis using assms(4) by (auto simp: sound_def)
  next
    case False
    then have "(if semver_satisfies sv (version p) b then lift (semver_intersects sv c b)
                else Inr False) \<noteq> Inr True"
      using v by (auto simp: lift_def split: option.splits)
    then have "(\<exists>t. prerelease p = Some t) \<and>
       ((semver_prerelease sv (versionOf b) \<noteq> None \<and> semver_satisfies sv (versionOf b) c) \<or>
        (semver_prerelease sv (versionOf b) = None \<and> semver_satisfies sv (versionOf c) (c @ '' '' @ b)))"
      using assms(3) b v
      by (auto simp: checkBound_def and_then_def pb split: sum.splits option.splits if_splits)
    then show ?thesis using assms(4) by (auto simp: sound_def)
  qed
qed

lemma ensureCompatible_one:
  "parseRange sv c = Inr p \<Longrightarrow> ensureCompatible sv c [b] = Inr () \<Longrightarrow> checkBound sv c p b = Inr ()"
  by (auto simp: ensureCompatible_def and_then_def split: sum.splits)

lemma ensureCompatible_two:
  "parseRange sv c = Inr p \<Longrightarrow> ensureCompatible sv c [a, b] = Inr () \<Longrightarrow>
     checkBound sv c p a = Inr () \<and> checkBound sv c p b = Inr ()"
  by (auto simp: ensureCompatible_def and_then_def split: sum.splits)

lemma updateBounds_lower:
  assumes "canonical c" and "\<not> upperClause c" and "updateBounds sv bp c = Inr bp'"
  shows "\<exists>l. ensureCompatible sv c [upperBound bp] = Inr () \<and>
             mergeBounds sv c (lowerBound bp) = Inr l \<and> bp' = bp\<lparr>lowerBound := Some l\<rparr>"
proof -
  have c: "\<not> startsWith (condOf c) ''<''" "startsWith (condOf c) ''>''" "condOf c \<noteq> ''=''"
    using canonical_side [OF assms(1)] assms(2) by (auto simp: upperClause_def)
  show ?thesis
    using assms(3) c
    by (auto simp: updateBounds_def parseRange_canonical [OF assms(1)] and_then_def
        split: sum.splits if_splits)
qed

lemma updateBounds_upper:
  assumes "canonical c" and "upperClause c" and "updateBounds sv bp c = Inr bp'"
  shows "\<exists>u. ensureCompatible sv c [lowerBound bp] = Inr () \<and>
             mergeBounds sv c (upperBound bp) = Inr u \<and> bp' = bp\<lparr>upperBound := Some u\<rparr>"
proof -
  have c: "startsWith (condOf c) ''<''" "\<not> startsWith (condOf c) ''>''" "condOf c \<noteq> ''=''"
    using canonical_side [OF assms(1)] assms(2) by (auto simp: upperClause_def startsWith_def)
  show ?thesis
    using assms(3) c
    by (auto simp: updateBounds_def parseRange_canonical [OF assms(1)] and_then_def
        split: sum.splits if_splits)
qed

lemma updateBounds_exact:
  assumes "exactClause e" and "updateBounds sv bp e = Inr bp'"
  shows "ensureCompatible sv e [lowerBound bp, upperBound bp] = Inr () \<and> bp' = pinned e"
  using assms(2)
  by (auto simp: updateBounds_def parseRange_exact [OF assms(1)] and_then_def pinned_def
      startsWith_def split: sum.splits if_splits)

lemma within_pinned:
  assumes "exactClause e"
  shows "within rank v (''>='' @ e) = (rank e \<le> rank v)"
    and "within rank v (''<='' @ e) = (rank v \<le> rank e)"
    and "within rank v e = (rank v = rank e)"
  unfolding within_def Let_def pinned_bounds [OF assms] exactClause_facts [OF assms]
  by simp_all

lemma pinned_step_lower:
  assumes "exactClause e" and "canonical c" and "\<not> upperClause c"
    and "ranked sv rank (versionOf c) e"
    and "sound sv rank c (''<='' @ e)"
    and "updateBounds sv (pinned e) c = Inr bp'"
  shows "bp' = pinned e"
proof -
  note pb = pinned_bounds [OF assms(1)]
  from updateBounds_lower [OF assms(2,3,6)] obtain l where
    l: "ensureCompatible sv c [Some (''<='' @ e)] = Inr ()"
       "mergeBounds sv c (Some (''>='' @ e)) = Inr l" "bp' = (pinned e)\<lparr>lowerBound := Some l\<rparr>"
    by (auto simp: pinned_def)
  have cb: "checkBound sv c \<lparr>condition = condOf c, prerelease = semver_prerelease sv (versionOf c),
       version = versionOf c\<rparr> (Some (''<='' @ e)) = Inr ()"
    using ensureCompatible_one [OF parseRange_canonical [OF assms(2)] l(1)] .
  have k: "condOf c = ''>'' \<or> condOf c = ''>=''"
    using canonical_side [OF assms(2)] assms(3) by auto
  have opp: "upperClause c \<noteq> upperClause (''<='' @ e)" using assms(3) pb(8) by simp
  have "(rank (versionOf c) \<le> rank e \<and>
           (upperClause c \<noteq> upperClause (''<='' @ e) \<longrightarrow> condOf c = ''='' \<or> within rank e c)) \<or>
         within rank e c \<or> (within rank (versionOf c) c \<and> rank (versionOf c) \<le> rank e)"
    using checkBound_cases [OF parseRange_canonical [OF assms(2)] pb(4) cb assms(5)]
    unfolding within_pinned [OF assms(1)] pb(6) .
  then have f: "rank (versionOf c) \<le> rank e \<and> (condOf c = ''>'' \<longrightarrow> rank (versionOf c) < rank e)"
    using k opp by (auto simp: within_def Let_def)
  have r: "ranked sv rank (versionOf c) (versionOf (''>='' @ e))" using assms(4) pb(3) by simp
  have "mergeBounds sv c (Some (''>='' @ e)) =
      Inr (if tighter (upperClause c) (rank (versionOf c)) (rank e) \<or>
              (isStrict (condOf c) \<and> rank (versionOf c) = rank e)
           then c else ''>='' @ e)"
    using mergeBounds_ranked [OF assms(2) pb(1) refl r] unfolding pb(3) .
  then have "mergeBounds sv c (Some (''>='' @ e)) = Inr (''>='' @ e)"
    using assms(3) f k by (auto simp: tighter_def isStrict_def)
  then have "l = ''>='' @ e" using l(2) by simp
  then show ?thesis using l(3) by (simp add: pinned_def)
qed

lemma pinned_step_upper:
  assumes "exactClause e" and "canonical c" and "upperClause c"
    and "ranked sv rank (versionOf c) e"
    and "sound sv rank c (''>='' @ e)"
    and "updateBounds sv (pinned e) c = Inr bp'"
  shows "bp' = pinned e"
proof -
  note pb = pinned_bounds [OF assms(1)]
  from updateBounds_upper [OF assms(2,3,6)] obtain u where
    u: "ensureCompatible sv c [Some (''>='' @ e)] = Inr ()"
       "mergeBounds sv c (Some (''<='' @ e)) = Inr u" "bp' = (pinned e)\<lparr>upperBound := Some u\<rparr>"
    by (auto simp: pinned_def)
  have cb: "checkBound sv c \<lparr>condition = condOf c, prerelease = semver_prerelease sv (versionOf c),
       version = versionOf c\<rparr> (Some (''>='' @ e)) = Inr ()"
    using ensureCompatible_one [OF parseRange_canonical [OF assms(2)] u(1)] .
  have k: "condOf c = ''<'' \<or> condOf c = ''<=''"
    using canonical_side [OF assms(2)] assms(3) by auto
  have opp: "upperClause c \<noteq> upperClause (''>='' @ e)" using assms(3) pb(7) by simp
  have "(rank e \<le> rank (versionOf c) \<and>
           (upperClause c \<noteq> upperClause (''>='' @ e) \<longrightarrow> condOf c = ''='' \<or> within rank e c)) \<or>
         within rank e c \<or> (within rank (versionOf c) c \<and> rank e \<le> rank (versionOf c))"
    using checkBound_cases [OF parseRange_canonical [OF assms(2)] pb(1) cb assms(5)]
    unfolding within_pinned [OF assms(1)] pb(3) .
  then have f: "rank e \<le> rank (versionOf c) \<and> (condOf c = ''<'' \<longrightarrow> rank e < rank (versionOf c))"
    using k opp by (auto simp: within_def Let_def)
  have r: "ranked sv rank (versionOf c) (versionOf (''<='' @ e))" using assms(4) pb(6) by simp
  have "mergeBounds sv c (Some (''<='' @ e)) =
      Inr (if tighter (upperClause c) (rank (versionOf c)) (rank e) \<or>
              (isStrict (condOf c) \<and> rank (versionOf c) = rank e)
           then c else ''<='' @ e)"
    using mergeBounds_ranked [OF assms(2) pb(4) refl r] unfolding pb(6) .
  then have "mergeBounds sv c (Some (''<='' @ e)) = Inr (''<='' @ e)"
    using assms(3) f k by (auto simp: tighter_def isStrict_def)
  then have "u = ''<='' @ e" using u(2) by simp
  then show ?thesis using u(3) by (simp add: pinned_def)
qed

lemma pinned_step_exact:
  assumes "exactClause e" and "exactClause c"
    and "ranked sv rank c e"
    and "sound sv rank c (''>='' @ e)" and "sound sv rank c (''<='' @ e)"
    and "updateBounds sv (pinned e) c = Inr bp'"
  shows "bp' = pinned e"
proof -
  note pb = pinned_bounds [OF assms(1)]
  note fc = exactClause_facts [OF assms(2)]
  from updateBounds_exact [OF assms(2,6)]
  have ec: "ensureCompatible sv c [Some (''>='' @ e), Some (''<='' @ e)] = Inr ()"
    and bp: "bp' = pinned c"
    by (simp_all add: pinned_def)
  note cb = ensureCompatible_two [OF parseRange_exact [OF assms(2)] ec]
  have "(rank e \<le> rank c \<and>
           (upperClause c \<noteq> upperClause (''>='' @ e) \<longrightarrow> condOf c = ''='' \<or> rank e = rank c)) \<or>
         rank e = rank c \<or> (rank c = rank c \<and> rank e \<le> rank c)"
    using checkBound_cases [OF parseRange_exact [OF assms(2)] pb(1) conjunct1 [OF cb] assms(4)]
    unfolding within_pinned [OF assms(1)] within_pinned [OF assms(2)] pb(3) fc(5) .
  then have lo: "rank e \<le> rank c" by auto
  have "(rank c \<le> rank e \<and>
           (upperClause c \<noteq> upperClause (''<='' @ e) \<longrightarrow> condOf c = ''='' \<or> rank e = rank c)) \<or>
         rank e = rank c \<or> (rank c = rank c \<and> rank c \<le> rank e)"
    using checkBound_cases [OF parseRange_exact [OF assms(2)] pb(4) conjunct2 [OF cb] assms(5)]
    unfolding within_pinned [OF assms(1)] within_pinned [OF assms(2)] pb(6) fc(5) .
  then have up: "rank c \<le> rank e" by auto
  have "c = e" using lo up assms(3) by (simp add: ranked_def)
  then show ?thesis using bp by simp
qed

lemma stays_pinned:
  assumes "exactClause e"
    and "\<forall>c\<in>set cs. clause c"
    and "\<forall>c\<in>set cs. ranked sv rank (versionOf c) e"
    and "\<forall>c\<in>set cs. sound sv rank c (''>='' @ e) \<and> sound sv rank c (''<='' @ e)"
    and "reduceUpdateBounds sv (pinned e) cs = Inr bp'"
  shows "bp' = pinned e"
  using assms(2-5)
proof (induction cs)
  case Nil
  then show ?case by simp
next
  case (Cons c cs)
  from Cons.prems(4) obtain bp1 where
    u: "updateBounds sv (pinned e) c = Inr bp1" and f: "reduceUpdateBounds sv bp1 cs = Inr bp'"
    by (auto simp: and_then_def split: sum.splits)
  have cl: "clause c" and rk: "ranked sv rank (versionOf c) e"
    and s1: "sound sv rank c (''>='' @ e)" and s2: "sound sv rank c (''<='' @ e)"
    using Cons.prems(1,2,3) by simp_all
  have "bp1 = pinned e"
  proof (cases "exactClause c")
    case True
    then have "ranked sv rank c e" using rk exactClause_facts(5) by simp
    then show ?thesis using pinned_step_exact [OF assms(1) True _ s1 s2 u] by simp
  next
    case False
    then have cc: "canonical c" using cl by (simp add: clause_def)
    show ?thesis
    proof (cases "upperClause c")
      case True
      show ?thesis using pinned_step_upper [OF assms(1) cc True rk s1 u] .
    next
      case False
      show ?thesis using pinned_step_lower [OF assms(1) cc False rk s2 u] .
    qed
  qed
  then have "reduceUpdateBounds sv (pinned e) cs = Inr bp'" using f by simp
  then show ?case using Cons.IH Cons.prems(1,2,3) by simp
qed

lemma ends_pinned:
  assumes "\<forall>r\<in>set rs. clause r"
    and "\<forall>r\<in>set rs. \<forall>r'\<in>set rs. ranked sv rank (versionOf r) (versionOf r')"
    and "\<forall>r\<in>set rs. \<forall>e\<in>set rs. exactClause e \<longrightarrow>
           sound sv rank r (''>='' @ e) \<and> sound sv rank r (''<='' @ e)"
    and "reduceUpdateBounds sv bp rs = Inr bp'"
    and "e \<in> set rs" and "exactClause e"
  shows "bp' = pinned e"
proof -
  from assms(5) obtain before after where sp: "rs = before @ e # after"
    by (auto simp: in_set_conv_decomp)
  from assms(4) obtain b1 b2 where
    "reduceUpdateBounds sv bp before = Inr b1" and u: "updateBounds sv b1 e = Inr b2"
    and f: "reduceUpdateBounds sv b2 after = Inr bp'"
    unfolding sp reduceUpdateBounds_append
    by (auto simp: and_then_def split: sum.splits)
  have b2: "b2 = pinned e" using updateBounds_exact [OF assms(6) u] by simp
  have ve: "versionOf e = e" using exactClause_facts(5) [OF assms(6)] .
  have 1: "\<forall>c\<in>set after. clause c" using assms(1) sp by simp
  have 2: "\<forall>c\<in>set after. ranked sv rank (versionOf c) e"
    using assms(2,5) sp ve by (metis Un_iff list.set_intros(2) set_append)
  have 3: "\<forall>c\<in>set after. sound sv rank c (''>='' @ e) \<and> sound sv rank c (''<='' @ e)"
    using assms(3,5,6) sp by simp
  show ?thesis using stays_pinned [OF assms(6) 1 2 3] f b2 by simp
qed

lemma folded_order_clauses:
  assumes "\<forall>r\<in>set (xs @ ys). clause r"
    and "\<forall>r\<in>set (xs @ ys). \<forall>r'\<in>set (xs @ ys). ranked sv rank (versionOf r) (versionOf r')"
    and "\<forall>r\<in>set (xs @ ys). \<forall>e\<in>set (xs @ ys). exactClause e \<longrightarrow>
           sound sv rank r (''>='' @ e) \<and> sound sv rank r (''<='' @ e)"
    and "reduceUpdateBounds sv emptyBounds (xs @ ys) = Inr p"
    and "reduceUpdateBounds sv emptyBounds (ys @ xs) = Inr q"
  shows "p = q"
proof (cases "\<exists>e\<in>set (xs @ ys). exactClause e")
  case True
  then obtain e where e: "e \<in> set (xs @ ys)" "exactClause e" by blast
  have s: "set (ys @ xs) = set (xs @ ys)" by auto
  have "p = pinned e" using ends_pinned [OF assms(1,2,3,4) e] .
  moreover have "q = pinned e"
    using ends_pinned [of "ys @ xs" sv rank emptyBounds q e] assms(1,2,3,5) e unfolding s by blast
  ultimately show ?thesis by simp
next
  case False
  then have "\<forall>r\<in>set (xs @ ys). canonical r" using assms(1) by (auto simp: clause_def)
  then show ?thesis using folded_order assms(2,4,5) by blast
qed

text \<open>
  Claim C8, as amended. Let \<open>A\<close> and \<open>B\<close> each normalise to one conjunction (no
  \<^verbatim>\<open>||\<close>) of clauses, each a canonical lower or upper comparator or an exact version;
  let the package rank the versions of these clauses linearly and be sound at each
  clause and the bounds of each exact version. Then \<open>intersect\<close> returns the same string
  for both orders of the arguments whenever it raises in neither. (With a union the
  strings can differ: with unions on both sides the branches come out in the order of
  the cross product, the first argument outermost; with a union on one side a branch
  can survive in one order and be dropped in the other. See the counterexample.)
\<close>

theorem intersect_commutative:
  assumes "expandRanges sv [A, B] = Inr [[cA], [cB]]"
    and "\<forall>r\<in>set (cA @ cB). clause r"
    and "\<forall>r\<in>set (cA @ cB). \<forall>r'\<in>set (cA @ cB). ranked sv rank (versionOf r) (versionOf r')"
    and "\<forall>r\<in>set (cA @ cB). \<forall>e\<in>set (cA @ cB). exactClause e \<longrightarrow>
           sound sv rank r (''>='' @ e) \<and> sound sv rank r (''<='' @ e)"
    and "intersect sv [A, B] = Inr s" and "intersect sv [B, A] = Inr s'"
  shows "s = s'"
proof -
  have sw: "expandRanges sv [B, A] = Inr [[cB], [cA]]"
    using assms(1) by (rule expandRanges_swap)
  have "and_then (reduceUnions sv [emptyBounds] [[cA], [cB]]) (formatUnion sv) = Inr s"
    using assms(5) by (simp only: intersect_def assms(1) and_then_def sum.case)
  then obtain p where
    p: "reduceUpdateBounds sv emptyBounds (cA @ cB) = Inr p" "formatUnion sv [p] = Inr s"
    unfolding reduceUnions_two by (auto simp: and_then_def split: sum.splits)
  have "and_then (reduceUnions sv [emptyBounds] [[cB], [cA]]) (formatUnion sv) = Inr s'"
    using assms(6) by (simp only: intersect_def sw and_then_def sum.case)
  then obtain q where
    q: "reduceUpdateBounds sv emptyBounds (cB @ cA) = Inr q" "formatUnion sv [q] = Inr s'"
    unfolding reduceUnions_two by (auto simp: and_then_def split: sum.splits)
  have "p = q" using folded_order_clauses [OF assms(2,3,4) p(1) q(1)] .
  then show ?thesis using p(2) q(2) by simp
qed

theorem intersect_commutative_witness:
  "expandRanges ref_semver [''1.5.16'', ''^1.0.0''] =
     Inr [[[''1.5.16'']], [[''>=1.0.0'', ''<2.0.0'']]] \<and>
   list_all clause [''1.5.16'', ''>=1.0.0'', ''<2.0.0''] \<and> exactClause ''1.5.16'' \<and>
   list_all (\<lambda>r. list_all (\<lambda>r'. ranked ref_semver (rankIn [''1.0.0'', ''1.5.16'', ''2.0.0''])
                 (versionOf r) (versionOf r')) [''1.5.16'', ''>=1.0.0'', ''<2.0.0''])
     [''1.5.16'', ''>=1.0.0'', ''<2.0.0''] \<and>
   list_all (\<lambda>r. sound ref_semver (rankIn [''1.0.0'', ''1.5.16'', ''2.0.0'']) r ''>=1.5.16'' \<and>
                sound ref_semver (rankIn [''1.0.0'', ''1.5.16'', ''2.0.0'']) r ''<=1.5.16'')
     [''1.5.16'', ''>=1.0.0'', ''<2.0.0''] \<and>
   intersect ref_semver [''1.5.16'', ''^1.0.0''] = Inr ''1.5.16'' \<and>
   intersect ref_semver [''^1.0.0'', ''1.5.16''] = Inr ''1.5.16'' \<and>
   expandRanges ref_semver [''^4.0.0'', ''>4.2.0 <=4.3.0''] =
     Inr [[[''>=4.0.0'', ''<5.0.0'']], [[''>4.2.0'', ''<=4.3.0'']]] \<and>
   list_all canonical [''>=4.0.0'', ''<5.0.0'', ''>4.2.0'', ''<=4.3.0''] \<and>
   list_all (\<lambda>r. list_all (\<lambda>r'. ranked ref_semver (rankIn [''4.0.0'', ''4.2.0'', ''4.3.0'', ''5.0.0''])
                 (versionOf r) (versionOf r')) [''>=4.0.0'', ''<5.0.0'', ''>4.2.0'', ''<=4.3.0''])
     [''>=4.0.0'', ''<5.0.0'', ''>4.2.0'', ''<=4.3.0''] \<and>
   intersect ref_semver [''^4.0.0'', ''>4.2.0 <=4.3.0''] = Inr ''>4.2.0 <=4.3.0'' \<and>
   intersect ref_semver [''>4.2.0 <=4.3.0'', ''^4.0.0''] = Inr ''>4.2.0 <=4.3.0''"
proof -
  let ?cA = "[''1.5.16'']"
  let ?cB = "[''>=1.0.0'', ''<2.0.0'']"
  let ?rank = "rankIn [''1.0.0'', ''1.5.16'', ''2.0.0'']"
  have a: "expandRanges ref_semver [''1.5.16'', ''^1.0.0''] = Inr [[?cA], [?cB]]"
    by code_simp
  have b: "list_all clause (?cA @ ?cB)" by code_simp
  have x: "exactClause ''1.5.16''" by code_simp
  have nx: "list_all (\<lambda>e. exactClause e \<longrightarrow> e = ''1.5.16'') (?cA @ ?cB)" by code_simp
  have c: "list_all (\<lambda>r. list_all (\<lambda>r'. ranked ref_semver ?rank (versionOf r) (versionOf r'))
      (?cA @ ?cB)) (?cA @ ?cB)"
    by code_simp
  have d: "list_all (\<lambda>r. sound ref_semver ?rank r ''>=1.5.16'' \<and> sound ref_semver ?rank r ''<=1.5.16'')
      (?cA @ ?cB)"
    by code_simp
  have b': "\<forall>r\<in>set (?cA @ ?cB). clause r" using b unfolding list_all_iff .
  have c': "\<forall>r\<in>set (?cA @ ?cB). \<forall>r'\<in>set (?cA @ ?cB).
      ranked ref_semver ?rank (versionOf r) (versionOf r')"
    using c unfolding list_all_iff .
  have d0: "\<forall>r\<in>set (?cA @ ?cB). sound ref_semver ?rank r (''>='' @ ''1.5.16'') \<and>
      sound ref_semver ?rank r (''<='' @ ''1.5.16'')"
    using d unfolding list_all_iff by simp
  have nx': "\<forall>e\<in>set (?cA @ ?cB). exactClause e \<longrightarrow> e = ''1.5.16''"
    using nx unfolding list_all_iff .
  have d': "\<forall>r\<in>set (?cA @ ?cB). \<forall>e\<in>set (?cA @ ?cB). exactClause e \<longrightarrow>
      sound ref_semver ?rank r (''>='' @ e) \<and> sound ref_semver ?rank r (''<='' @ e)"
    using d0 nx' by blast
  have e: "intersect ref_semver [''1.5.16'', ''^1.0.0''] = Inr ''1.5.16''" by code_simp
  let ?s = "case intersect ref_semver [''^1.0.0'', ''1.5.16''] of Inl _ \<Rightarrow> [] | Inr x \<Rightarrow> x"
  have f: "intersect ref_semver [''^1.0.0'', ''1.5.16''] = Inr ?s" by code_simp
  have eq: "''1.5.16'' = ?s"
    using intersect_commutative [OF a b' c' d' e f] .
  have f': "intersect ref_semver [''^1.0.0'', ''1.5.16''] = Inr ''1.5.16''"
    by (rule subst [where P = "\<lambda>x. intersect ref_semver [''^1.0.0'', ''1.5.16''] = Inr x",
          OF eq [symmetric] f])
  let ?dA = "[''>=4.0.0'', ''<5.0.0'']"
  let ?dB = "[''>4.2.0'', ''<=4.3.0'']"
  let ?rank2 = "rankIn [''4.0.0'', ''4.2.0'', ''4.3.0'', ''5.0.0'']"
  have g: "expandRanges ref_semver [''^4.0.0'', ''>4.2.0 <=4.3.0''] = Inr [[?dA], [?dB]]"
    by code_simp
  have h: "list_all canonical (?dA @ ?dB)" by code_simp
  have i: "list_all (\<lambda>r. list_all (\<lambda>r'. ranked ref_semver ?rank2 (versionOf r) (versionOf r'))
      (?dA @ ?dB)) (?dA @ ?dB)"
    by code_simp
  have h': "\<forall>r\<in>set (?dA @ ?dB). clause r"
    using h unfolding list_all_iff clause_def by blast
  have i': "\<forall>r\<in>set (?dA @ ?dB). \<forall>r'\<in>set (?dA @ ?dB).
      ranked ref_semver ?rank2 (versionOf r) (versionOf r')"
    using i unfolding list_all_iff .
  have "\<forall>r\<in>set (?dA @ ?dB). \<not> exactClause r"
    using h exactClause_facts(4) unfolding list_all_iff canonical_def by fastforce
  then have j': "\<forall>r\<in>set (?dA @ ?dB). \<forall>e\<in>set (?dA @ ?dB). exactClause e \<longrightarrow>
      sound ref_semver ?rank2 r (''>='' @ e) \<and> sound ref_semver ?rank2 r (''<='' @ e)"
    by blast
  have k: "intersect ref_semver [''^4.0.0'', ''>4.2.0 <=4.3.0''] = Inr ''>4.2.0 <=4.3.0''"
    by code_simp
  let ?t = "case intersect ref_semver [''>4.2.0 <=4.3.0'', ''^4.0.0''] of Inl _ \<Rightarrow> [] | Inr x \<Rightarrow> x"
  have l: "intersect ref_semver [''>4.2.0 <=4.3.0'', ''^4.0.0''] = Inr ?t" by code_simp
  have eq2: "''>4.2.0 <=4.3.0'' = ?t"
    using intersect_commutative [OF g h' i' j' k l] .
  have l': "intersect ref_semver [''>4.2.0 <=4.3.0'', ''^4.0.0''] = Inr ''>4.2.0 <=4.3.0''"
    by (rule subst [where P = "\<lambda>x. intersect ref_semver [''>4.2.0 <=4.3.0'', ''^4.0.0''] = Inr x",
          OF eq2 [symmetric] l])
  show ?thesis using a b x c d e f' g h i k l' by simp
qed

theorem intersect_commutative_counterexample:
  "intersect ref_semver [''>=1.0.0 || >=2.0.0'', ''>=3.0.0 || >=4.0.0''] =
     Inr ''>=3.0.0 || >=4.0.0 || >=3.0.0 || >=4.0.0'' \<and>
   intersect ref_semver [''>=3.0.0 || >=4.0.0'', ''>=1.0.0 || >=2.0.0''] =
     Inr ''>=3.0.0 || >=3.0.0 || >=4.0.0 || >=4.0.0'' \<and>
   intersect ref_semver [''>=1.0.0-a || >=3.0.0'', ''>=1.5.0''] = Inr ''>=1.5.0 || >=3.0.0'' \<and>
   intersect ref_semver [''>=1.5.0'', ''>=1.0.0-a || >=3.0.0''] = Inr ''>=3.0.0''"
  by code_simp

end
